theory Spec2Isabelle
  imports Complex_Main "HOL-Library.Char_ord" "HOL-Library.List_Lexorder"
begin

section \<open>Python values and errors\<close>

text \<open>
  The notebooks are Python. Integers are unbounded (\<^typ>\<open>int\<close>), an exception is a
  value \<open>Inl e\<close> of a sum type, and floating-point numbers are idealised as exact reals
  (complex numbers for the Pauli matrices): rounding is not modelled anywhere below.
\<close>

datatype error = IndexError | TypeError | ValueError | AssertionError | UnboundLocalError
  | LinAlgError

definition py_range :: "int \<Rightarrow> int list" where
  \<comment> \<open>\<^verbatim>\<open>range(n)\<close>: empty when \<open>n \<le> 0\<close>.\<close>
  "py_range n = map int [0..<nat n]"

definition py_index :: "'a list \<Rightarrow> int \<Rightarrow> error + 'a" where
  \<comment> \<open>\<^verbatim>\<open>xs[i]\<close>; an index below zero is taken from the end of the list\<close>
  "py_index xs i =
     (if 0 \<le> i \<and> i < int (length xs) then Inr (xs ! nat i)
      else if i < 0 \<and> - int (length xs) \<le> i then Inr (xs ! nat (int (length xs) + i))
      else Inl IndexError)"

section \<open>The square lattice (both Rydberg notebooks)\<close>

type_synonym bond = "int \<times> int"

text \<open>
  \<^verbatim>\<open>VariationalMonteCarlo.coord_to_site\<close> reads \<^verbatim>\<open>self.Ly\<close>; the tomography notebook's
  nested \<^verbatim>\<open>coord_to_site(Ly,x,y)\<close> takes it as an argument.
\<close>

definition vmc_coord_to_site :: "int \<Rightarrow> int \<Rightarrow> int \<Rightarrow> int" where
  "vmc_coord_to_site Ly x y = Ly * x + y"

definition coord_to_site :: "int \<Rightarrow> int \<Rightarrow> int \<Rightarrow> int" where
  "coord_to_site Ly x y = Ly * x + y"

text \<open>
  Each \<^verbatim>\<open>for\<close> loop is a left fold over its range whose accumulator is the list being
  appended to; the nesting and the order of the loops are those of the source.
\<close>

definition vmc_buildlattice :: "int \<Rightarrow> int \<Rightarrow> bond list \<times> bond list \<times> bond list" where
  "vmc_buildlattice Lx Ly =
    (let nn = [];
         nnn = [];
         nnnn = [];
         nn = foldl (\<lambda>nn x. foldl (\<lambda>nn y.
                  nn @ [(vmc_coord_to_site Ly x y, vmc_coord_to_site Ly x (y + 1))])
                nn (py_range (Ly - 1))) nn (py_range Lx);
         nn = foldl (\<lambda>nn y. foldl (\<lambda>nn x.
                  nn @ [(vmc_coord_to_site Ly x y, vmc_coord_to_site Ly (x + 1) y)])
                nn (py_range (Lx - 1))) nn (py_range Ly);
         nnn = foldl (\<lambda>nnn y. foldl (\<lambda>nnn x.
                  (nnn @ [(vmc_coord_to_site Ly x y, vmc_coord_to_site Ly (x + 1) (y + 1))])
                       @ [(vmc_coord_to_site Ly (x + 1) y, vmc_coord_to_site Ly x (y + 1))])
                nnn (py_range (Lx - 1))) nnn (py_range (Ly - 1));
         nnnn = foldl (\<lambda>nnnn y. foldl (\<lambda>nnnn x.
                  nnnn @ [(vmc_coord_to_site Ly x y, vmc_coord_to_site Ly (x + 2) y)])
                nnnn (py_range (Lx - 2))) nnnn (py_range Ly);
         nnnn = foldl (\<lambda>nnnn y. foldl (\<lambda>nnnn x.
                  nnnn @ [(vmc_coord_to_site Ly x y, vmc_coord_to_site Ly x (y + 2))])
                nnnn (py_range Lx)) nnnn (py_range (Ly - 2))
     in (nn, nnn, nnnn))"

definition buildlattice :: "int \<Rightarrow> int \<Rightarrow> bond list \<times> bond list \<times> bond list" where
  "buildlattice Lx Ly =
    (let nn = [];
         nnn = [];
         nnnn = [];
         nn = foldl (\<lambda>nn x. foldl (\<lambda>nn y.
                  nn @ [(coord_to_site Ly x y, coord_to_site Ly x (y + 1))])
                nn (py_range (Ly - 1))) nn (py_range Lx);
         nn = foldl (\<lambda>nn y. foldl (\<lambda>nn x.
                  nn @ [(coord_to_site Ly x y, coord_to_site Ly (x + 1) y)])
                nn (py_range (Lx - 1))) nn (py_range Ly);
         nnn = foldl (\<lambda>nnn y. foldl (\<lambda>nnn x.
                  (nnn @ [(coord_to_site Ly x y, coord_to_site Ly (x + 1) (y + 1))])
                       @ [(coord_to_site Ly (x + 1) y, coord_to_site Ly x (y + 1))])
                nnn (py_range (Lx - 1))) nnn (py_range (Ly - 1));
         nnnn = foldl (\<lambda>nnnn y. foldl (\<lambda>nnnn x.
                  nnnn @ [(coord_to_site Ly x y, coord_to_site Ly (x + 2) y)])
                nnnn (py_range (Lx - 2))) nnnn (py_range Ly);
         nnnn = foldl (\<lambda>nnnn y. foldl (\<lambda>nnnn x.
                  nnnn @ [(coord_to_site Ly x y, coord_to_site Ly x (y + 2))])
                nnnn (py_range Lx)) nnnn (py_range (Ly - 2))
     in (nn, nnn, nnnn))"

text \<open>The bond lists as comprehensions, for reasoning only.\<close>

definition nn_bonds :: "int \<Rightarrow> int \<Rightarrow> bond list" where
  "nn_bonds Lx Ly =
     concat (map (\<lambda>x. map (\<lambda>y. (Ly * x + y, Ly * x + (y + 1))) (py_range (Ly - 1))) (py_range Lx))
   @ concat (map (\<lambda>y. map (\<lambda>x. (Ly * x + y, Ly * (x + 1) + y)) (py_range (Lx - 1))) (py_range Ly))"

definition nnn_bonds :: "int \<Rightarrow> int \<Rightarrow> bond list" where
  "nnn_bonds Lx Ly =
     concat (map (\<lambda>y. concat (map (\<lambda>x. [(Ly * x + y, Ly * (x + 1) + (y + 1)),
                                          (Ly * (x + 1) + y, Ly * x + (y + 1))])
                               (py_range (Lx - 1)))) (py_range (Ly - 1)))"

definition nnnn_bonds :: "int \<Rightarrow> int \<Rightarrow> bond list" where
  "nnnn_bonds Lx Ly =
     concat (map (\<lambda>y. map (\<lambda>x. (Ly * x + y, Ly * (x + 2) + y)) (py_range (Lx - 2))) (py_range Ly))
   @ concat (map (\<lambda>y. map (\<lambda>x. (Ly * x + y, Ly * x + (y + 2))) (py_range Lx)) (py_range (Ly - 2)))"

definition in_lattice :: "int \<Rightarrow> int \<Rightarrow> bond \<Rightarrow> bool" where
  "in_lattice Lx Ly b \<longleftrightarrow>
     0 \<le> fst b \<and> fst b < Lx * Ly \<and> 0 \<le> snd b \<and> snd b < Lx * Ly \<and> fst b \<noteq> snd b"

section \<open>Tensors\<close>

text \<open>
  A tensor is a nested list, outermost axis first; a batch of samples is the list of its
  rows, so an array without rows carries no column count here. Operations along the batch
  axis act on every row alike.
\<close>

fun collect :: "(error + 'a) list \<Rightarrow> error + 'a list" where
  \<comment> \<open>the results of a row-wise operation; the first failure is the one raised\<close>
  "collect [] = Inr []"
| "collect (r # rs) =
     (case r of Inl e \<Rightarrow> Inl e
      | Inr x \<Rightarrow> (case collect rs of Inl e \<Rightarrow> Inl e | Inr xs \<Rightarrow> Inr (x # xs)))"

fun fold_res :: "('s \<Rightarrow> 'a \<Rightarrow> error + 's) \<Rightarrow> 'a list \<Rightarrow> 's \<Rightarrow> error + 's" where
  \<comment> \<open>a \<^verbatim>\<open>for\<close> loop whose body may raise\<close>
  "fold_res f [] s = Inr s"
| "fold_res f (x # xs) s = (case f s x of Inl e \<Rightarrow> Inl e | Inr s' \<Rightarrow> fold_res f xs s')"

definition broadcast2 :: "('a \<Rightarrow> 'b \<Rightarrow> 'c) \<Rightarrow> 'a list \<Rightarrow> 'b list \<Rightarrow> error + 'c list" where
  \<comment> \<open>an elementwise binary operation along one axis, with the broadcasting rule: extents
      must agree unless one of them is 1\<close>
  "broadcast2 f xs ys =
     (if length xs = length ys then Inr (map2 f xs ys)
      else if length xs = 1 then Inr (map (f (hd xs)) ys)
      else if length ys = 1 then Inr (map (\<lambda>x. f x (hd ys)) xs)
      else Inl ValueError)"

definition int64 :: "int \<Rightarrow> int" where
  \<comment> \<open>wrap-around of 64-bit signed integer arithmetic\<close>
  "int64 x = (x + 2 ^ 63) mod 2 ^ 64 - 2 ^ 63"

definition column :: "'a list list \<Rightarrow> int \<Rightarrow> error + 'a list" where
  \<comment> \<open>\<^verbatim>\<open>samples[:,j]\<close>\<close>
  "column arr j = collect (map (\<lambda>row. py_index row j) arr)"

definition py_slice_to :: "'a list \<Rightarrow> int \<Rightarrow> 'a list" where
  \<comment> \<open>\<^verbatim>\<open>xs[0:n]\<close>: a negative stop counts from the end\<close>
  "py_slice_to xs n = (if n < 0 then take (nat (int (length xs) + n)) xs else take (nat n) xs)"

definition one_hot :: "nat \<Rightarrow> int \<Rightarrow> real list" where
  \<comment> \<open>\<^verbatim>\<open>tf.one_hot(v, depth)\<close>: an index outside the depth gives the zero vector\<close>
  "one_hot depth v = map (\<lambda>k. if int k = v then 1 else 0) [0..<depth]"

definition softmax :: "real list \<Rightarrow> real list" where
  "softmax zs = map (\<lambda>z. exp z / sum_list (map exp zs)) zs"

section \<open>The RNN wavefunction (VMC notebook)\<close>

text \<open>
  The fields of \<^verbatim>\<open>VariationalMonteCarlo\<close> that the sampling, amplitude and energy methods
  read. The trainable parameters of the two Keras layers are the functions they compute:
  \<open>rnn_cell\<close> is one step of the GRU (input vector and previous hidden state to new hidden
  state, which is also the step's output), \<open>dense_affine\<close> gives the pre-activation of
  output unit \<open>k\<close> of the dense layer.
\<close>

record vmc =
  self_Lx :: int
  self_Ly :: int
  self_V :: real
  self_Omega :: real
  self_delta :: real
  self_N :: int
  self_nh :: nat
  self_K :: nat
  rnn_cell :: "real list \<Rightarrow> real list \<Rightarrow> real list"
  dense_affine :: "real list \<Rightarrow> nat \<Rightarrow> real"
  self_nn :: "bond list"
  self_nnn :: "bond list"
  self_nnnn :: "bond list"

definition VariationalMonteCarlo ::
  "int \<Rightarrow> int \<Rightarrow> real \<Rightarrow> real \<Rightarrow> real \<Rightarrow> nat \<Rightarrow>
   (real list \<Rightarrow> real list \<Rightarrow> real list) \<Rightarrow> (real list \<Rightarrow> nat \<Rightarrow> real) \<Rightarrow> vmc" where
  \<comment> \<open>the constructor; the optimizer, the seed and the number of epochs are not modelled\<close>
  "VariationalMonteCarlo Lx Ly V Omega delta num_hidden cell affine =
     (case vmc_buildlattice Lx Ly of (nn, nnn, nnnn) \<Rightarrow>
        \<lparr>self_Lx = Lx, self_Ly = Ly, self_V = V, self_Omega = Omega, self_delta = delta,
         self_N = Lx * Ly, self_nh = num_hidden, self_K = 2,
         rnn_cell = cell, dense_affine = affine,
         self_nn = nn, self_nnn = nnn, self_nnnn = nnnn\<rparr>)"

fun rnn :: "(real list \<Rightarrow> real list \<Rightarrow> real list) \<Rightarrow> real list list \<Rightarrow> real list
              \<Rightarrow> real list list \<times> real list" where
  \<comment> \<open>the GRU layer on one row (\<^verbatim>\<open>return_sequences\<close>, \<^verbatim>\<open>return_state\<close>): the outputs of all
      time steps and the last hidden state\<close>
  "rnn cell [] h = ([], h)"
| "rnn cell (x # xs) h =
     (let h' = cell x h; (outs, hfin) = rnn cell xs h' in (h' # outs, hfin))"

definition dense :: "vmc \<Rightarrow> real list \<Rightarrow> real list" where
  \<comment> \<open>\<^verbatim>\<open>Dense(K, activation = softmax)\<close> on one vector\<close>
  "dense vm h = softmax (map (dense_affine vm h) [0..<self_K vm])"

text \<open>
  The variables of \<^verbatim>\<open>sample\<close> that live across iterations; \<^verbatim>\<open>samples\<close> is unbound until
  the first iteration has run. The loop reads it only when \<open>j \<noteq> 0\<close>, that is after the
  iteration \<open>j = 0\<close> of \<^verbatim>\<open>range(self.N)\<close> has bound it; with no iteration at all the
  \<^verbatim>\<open>return\<close> finds it unbound.
\<close>

record sample_state =
  st_inputs :: "real list list list"
  st_hidden_state :: "real list list"
  st_logP :: "real list"
  st_samples :: "int list list option"

definition sample_step ::
  "vmc \<Rightarrow> (nat \<Rightarrow> nat \<Rightarrow> real list \<Rightarrow> int) \<Rightarrow> nat \<Rightarrow> sample_state \<Rightarrow> int \<Rightarrow> sample_state" where
  \<comment> \<open>the body of the loop of \<^verbatim>\<open>sample\<close>; \<open>categorical j i lp\<close> is the outcome that
      \<^verbatim>\<open>tf.random.categorical\<close> draws for row \<open>i\<close> at step \<open>j\<close> from log-probabilities \<open>lp\<close>\<close>
  "sample_step vm categorical nsamples st j =
     (let run = map2 (rnn (rnn_cell vm)) (st_inputs st) (st_hidden_state st);
          rnn_output = map fst run;
          hidden_state' = map snd run;
          probs = map (map (dense vm)) rnn_output;
          log_probs = map (\<lambda>p. map (\<lambda>q. ln (1 / 10 ^ 10 + q)) (concat p)) probs;
          sample = map (\<lambda>i. [categorical (nat j) i (log_probs ! i)]) [0..<nsamples];
          samples' = (if j = 0 then sample else map2 (@) (the (st_samples st)) sample);
          inputs' = map (map (one_hot (self_K vm))) sample;
          add = map2 (\<lambda>l x. sum_list (map2 (*) l (concat x))) log_probs inputs'
      in \<lparr>st_inputs = inputs', st_hidden_state = hidden_state',
          st_logP = map2 (+) (st_logP st) add, st_samples = Some samples'\<rparr>)"

definition sample ::
  "vmc \<Rightarrow> (nat \<Rightarrow> nat \<Rightarrow> real list \<Rightarrow> int) \<Rightarrow> nat \<Rightarrow> error + (int list list \<times> real list)" where
  "sample vm categorical nsamples =
     (let st = \<lparr>st_inputs = replicate nsamples [replicate (self_K vm) 0],
                st_hidden_state = replicate nsamples (replicate (self_nh vm) 0),
                st_logP = replicate nsamples 0,
                st_samples = None\<rparr>;
          st = foldl (sample_step vm categorical nsamples) st (py_range (self_N vm))
      in case st_samples st of None \<Rightarrow> Inl UnboundLocalError
         | Some smp \<Rightarrow> Inr (smp, st_logP st))"

definition logpsi :: "vmc \<Rightarrow> int list list \<Rightarrow> error + real list" where
  "logpsi vm samples =
     (let num_samples = length samples;
          data = map (\<lambda>s. map (one_hot (self_K vm)) (py_slice_to s (self_N vm - 1))) samples;
          x0 = replicate num_samples [replicate (self_K vm) 0];
          inputs = map2 (@) x0 data;
          hidden_state = replicate num_samples (replicate (self_nh vm) 0);
          rnn_output = map fst (map2 (rnn (rnn_cell vm)) inputs hidden_state);
          probs = map (map (dense vm)) rnn_output;
          logs = map (map (map (\<lambda>q. ln (1 / 10 ^ 10 + q)))) probs;
          hot = map (map (one_hot (self_K vm))) samples
      in case collect (map2 (broadcast2 (map2 (*))) logs hot) of
           Inl e \<Rightarrow> Inl e
         | Inr weighted \<Rightarrow>
             (let log_probs = map (map sum_list) weighted
              in Inr (map (\<lambda>l. 0.5 * sum_list l) log_probs)))"

section \<open>The local energy (VMC notebook)\<close>

text \<open>
  \<^verbatim>\<open>localenergy\<close> copies its argument and writes into the copy, so arrays live in a store:
  an address is an index into the list of allocated arrays, \<^verbatim>\<open>np.copy\<close> allocates at the end.
\<close>

type_synonym heap = "int list list list"

definition np_copy :: "heap \<Rightarrow> nat \<Rightarrow> nat \<times> heap" where
  "np_copy h a = (length h, h @ [h ! a])"

definition flip_row :: "int list \<Rightarrow> int \<Rightarrow> error + int list" where
  "flip_row row j =
     (case py_index row j of Inl e \<Rightarrow> Inl e
      | Inr v \<Rightarrow> Inr (row[nat (if j < 0 then int (length row) + j else j) := int64 (1 - v)]))"

definition flip_column :: "int list list \<Rightarrow> int \<Rightarrow> error + int list list" where
  \<comment> \<open>\<^verbatim>\<open>flip_samples[:,j] = 1 - flip_samples[:,j]\<close>, the value of the array afterwards\<close>
  "flip_column arr j = collect (map (\<lambda>row. flip_row row j) arr)"

definition bond_term :: "real \<Rightarrow> int list list \<Rightarrow> real list \<Rightarrow> bond \<Rightarrow> error + real list" where
  \<comment> \<open>\<^verbatim>\<open>eloc += c * tf.cast(samples[:,b[0]]*samples[:,b[1]],tf.float32)\<close>\<close>
  "bond_term c smp eloc b =
     (case column smp (fst b) of Inl e \<Rightarrow> Inl e
      | Inr ca \<Rightarrow> (case column smp (snd b) of Inl e \<Rightarrow> Inl e
      | Inr cb \<Rightarrow> broadcast2 (+) eloc
           (map (\<lambda>v. c * real_of_int v) (map2 (\<lambda>x y. int64 (x * y)) ca cb))))"

definition localenergy_diagonal :: "vmc \<Rightarrow> int list list \<Rightarrow> error + real list" where
  \<comment> \<open>\<^verbatim>\<open>localenergy\<close> up to the comment \<^verbatim>\<open># Off-diagonal part\<close>; it only reads the samples\<close>
  "localenergy_diagonal vm smp =
     (let eloc = replicate (length smp) 0 in
      (case fold_res (\<lambda>eloc j.
             (case column smp j of Inl e \<Rightarrow> Inl e
              | Inr c \<Rightarrow> broadcast2 (+) eloc (map (\<lambda>v. - self_delta vm * real_of_int v) c)))
           (py_range (self_N vm)) eloc of Inl e \<Rightarrow> Inl e
       | Inr eloc \<Rightarrow>
      (case fold_res (\<lambda>eloc n. bond_term (self_V vm) smp eloc (self_nn vm ! nat n))
           (py_range (int (length (self_nn vm)))) eloc of Inl e \<Rightarrow> Inl e
       | Inr eloc \<Rightarrow>
      (case fold_res (\<lambda>eloc n. bond_term (self_V vm / 8.0) smp eloc (self_nnn vm ! nat n))
           (py_range (int (length (self_nnn vm)))) eloc of Inl e \<Rightarrow> Inl e
       | Inr eloc \<Rightarrow>
        fold_res (\<lambda>eloc n. bond_term (self_V vm / 64.0) smp eloc (self_nnnn vm ! nat n))
           (py_range (int (length (self_nnnn vm)))) eloc))))"

fun localenergy_offdiagonal ::
  "vmc \<Rightarrow> nat \<Rightarrow> real list \<Rightarrow> int list \<Rightarrow> heap \<Rightarrow> real list \<Rightarrow> heap \<times> (error + real list)" where
  \<comment> \<open>the last loop of \<^verbatim>\<open>localenergy\<close>, over the remaining values of \<open>j\<close>; \<open>a\<close> is the address
      of \<^verbatim>\<open>samples\<close>\<close>
  "localenergy_offdiagonal vm a lp [] h eloc = (h, Inr eloc)"
| "localenergy_offdiagonal vm a lp (j # js) h eloc =
     (case np_copy h a of (flip_samples, h) \<Rightarrow>
      (case flip_column (h ! flip_samples) j of Inl e \<Rightarrow> (h, Inl e)
       | Inr arr \<Rightarrow>
      (let h = h[flip_samples := arr] in
      (case logpsi vm (h ! flip_samples) of Inl e \<Rightarrow> (h, Inl e)
       | Inr flip_logpsi \<Rightarrow>
      (case broadcast2 (-) flip_logpsi lp of Inl e \<Rightarrow> (h, Inl e)
       | Inr d \<Rightarrow>
      (case broadcast2 (+) eloc (map (\<lambda>x. - 0.5 * self_Omega vm * exp x) d) of
         Inl e \<Rightarrow> (h, Inl e)
       | Inr eloc \<Rightarrow> localenergy_offdiagonal vm a lp js h eloc))))))"

definition localenergy :: "vmc \<Rightarrow> heap \<Rightarrow> nat \<Rightarrow> real list \<Rightarrow> heap \<times> (error + real list)" where
  \<comment> \<open>\<open>a\<close> is the address of \<^verbatim>\<open>samples\<close>, \<open>lp\<close> the argument \<^verbatim>\<open>logpsi\<close>; the result is the
      store after the call and the value returned or the exception raised\<close>
  "localenergy vm h a lp =
     (case localenergy_diagonal vm (h ! a) of Inl e \<Rightarrow> (h, Inl e)
      | Inr eloc \<Rightarrow> localenergy_offdiagonal vm a lp (py_range (self_N vm)) h eloc)"

text \<open>One row of \<^verbatim>\<open>logpsi\<close> up to the elementwise product, for reasoning only.\<close>

definition logpsi_weighted :: "vmc \<Rightarrow> int list \<Rightarrow> error + real list list" where
  "logpsi_weighted vm s =
     broadcast2 (map2 (*))
       (map (map (\<lambda>q. ln (1 / 10 ^ 10 + q)))
          (map (dense vm)
             (fst (rnn (rnn_cell vm)
                    ([replicate (self_K vm) 0] @ map (one_hot (self_K vm)) (py_slice_to s (self_N vm - 1)))
                    (replicate (self_nh vm) 0)))))
       (map (one_hot (self_K vm)) s)"

text \<open>The value the claim about the local energy names, written as the claim writes it.\<close>

definition log_amplitude :: "vmc \<Rightarrow> int list \<Rightarrow> real" where
  \<comment> \<open>what \<^verbatim>\<open>logpsi\<close> returns for one configuration\<close>
  "log_amplitude vm s = (case logpsi vm [s] of Inr l \<Rightarrow> hd l | Inl e \<Rightarrow> 0)"

definition flip :: "nat \<Rightarrow> int list \<Rightarrow> int list" where
  "flip j s = s[j := 1 - s ! j]"

definition bond_sum :: "bond list \<Rightarrow> int list \<Rightarrow> real" where
  "bond_sum bonds s = (\<Sum>b\<leftarrow>bonds. real_of_int (s ! nat (fst b) * s ! nat (snd b)))"

definition diagonal_energy :: "vmc \<Rightarrow> int list \<Rightarrow> real" where
  "diagonal_energy vm s =
     (- self_delta vm) * (\<Sum>j\<leftarrow>[0..<nat (self_N vm)]. real_of_int (s ! j))
     + self_V vm * bond_sum (fst (vmc_buildlattice (self_Lx vm) (self_Ly vm))) s
     + (self_V vm / 8) * bond_sum (fst (snd (vmc_buildlattice (self_Lx vm) (self_Ly vm)))) s
     + (self_V vm / 64) * bond_sum (snd (snd (vmc_buildlattice (self_Lx vm) (self_Ly vm)))) s"

definition local_energy_value :: "vmc \<Rightarrow> int list \<Rightarrow> real" where
  "local_energy_value vm s =
     diagonal_energy vm s
     - 0.5 * self_Omega vm *
         (\<Sum>j\<leftarrow>[0..<nat (self_N vm)]. exp (log_amplitude vm (flip j s) - log_amplitude vm s))"

definition lattice_ok :: "int \<Rightarrow> int \<Rightarrow> bond list \<times> bond list \<times> bond list \<Rightarrow> bool" where
  "lattice_ok Lx Ly L \<longleftrightarrow> (case L of (nn, nnn, nnnn) \<Rightarrow>
     list_all (in_lattice Lx Ly) (nn @ nnn @ nnnn) \<and>
     int (length nn) = Lx * (Ly - 1) + Ly * (Lx - 1) \<and>
     int (length nnn) = 2 * (Lx - 1) * (Ly - 1) \<and>
     int (length nnnn) = Ly * max (Lx - 2) 0 + Lx * max (Ly - 2) 0)"

section \<open>Sampling one row at a time\<close>

text \<open>
  For reasoning only. The tensor operations of \<^verbatim>\<open>sample\<close> act on each row of the batch
  alone; \<open>sample_row_step\<close> is the loop body on one row (its input, hidden state,
  accumulated log-probability and samples so far), and \<open>sequence_log_prob\<close> replays the
  network along a given sequence of outcomes.
\<close>

type_synonym row_state = "real list list \<times> real list \<times> real \<times> int list"

definition sample_row_step :: "vmc \<Rightarrow> (nat \<Rightarrow> real list \<Rightarrow> int) \<Rightarrow> row_state \<Rightarrow> nat \<Rightarrow> row_state" where
  "sample_row_step vm draw r j =
     (case r of (x, h, l, s) \<Rightarrow>
        let run = rnn (rnn_cell vm) x h;
            lp = map (\<lambda>q. ln (1 / 10 ^ 10 + q)) (concat (map (dense vm) (fst run)));
            v = draw j lp;
            x' = [one_hot (self_K vm) v]
        in (x', snd run, l + sum_list (map2 (*) lp (concat x')), s @ [v]))"

fun sequence_log_prob :: "vmc \<Rightarrow> real list \<Rightarrow> real list \<Rightarrow> int list \<Rightarrow> real" where
  "sequence_log_prob vm x h [] = 0"
| "sequence_log_prob vm x h (v # vs) =
     (let h' = rnn_cell vm x h;
          lp = map (\<lambda>q. ln (1 / 10 ^ 10 + q)) (dense vm h')
      in sum_list (map2 (*) lp (one_hot (self_K vm) v))
         + sequence_log_prob vm (one_hot (self_K vm) v) h' vs)"

definition batch_rows :: "nat \<Rightarrow> (nat \<Rightarrow> row_state) \<Rightarrow> sample_state \<Rightarrow> bool" where
  "batch_rows ns R st \<longleftrightarrow>
     st_inputs st = map (\<lambda>i. fst (R i)) [0..<ns] \<and>
     st_hidden_state st = map (\<lambda>i. fst (snd (R i))) [0..<ns] \<and>
     st_logP st = map (\<lambda>i. fst (snd (snd (R i)))) [0..<ns]"

definition row_start :: "vmc \<Rightarrow> row_state" where
  "row_start vm = ([replicate (self_K vm) 0], replicate (self_nh vm) 0, 0, [])"

definition sample_start :: "vmc \<Rightarrow> nat \<Rightarrow> sample_state" where
  "sample_start vm nsamples =
     \<lparr>st_inputs = replicate nsamples [replicate (self_K vm) 0],
      st_hidden_state = replicate nsamples (replicate (self_nh vm) 0),
      st_logP = replicate nsamples 0,
      st_samples = None\<rparr>"

section \<open>Matrices and local operators\<close>

type_synonym 'a matrix = "'a list list"

definition kron :: "'a::times matrix \<Rightarrow> 'a matrix \<Rightarrow> 'a matrix" where
  \<comment> \<open>\<^verbatim>\<open>np.kron\<close> of two matrices, as lists of rows\<close>
  "kron A B = concat (map (\<lambda>ra. map (\<lambda>rb. concat (map (\<lambda>a. map (\<lambda>b. a * b) rb) ra)) B) A)"

definition scale :: "'a::times \<Rightarrow> 'a matrix \<Rightarrow> 'a matrix" where
  \<comment> \<open>a scalar times a matrix\<close>
  "scale c A = map (map (\<lambda>a. c * a)) A"

text \<open>
  NetKet's \<^verbatim>\<open>nk.operator.LocalOperator\<close> is library code. An operator is kept as the
  expression the notebook builds: \<^verbatim>\<open>LocalOperator(hilbert, c)\<close> is the constant \<open>c\<close>,
  \<^verbatim>\<open>LocalOperator(hilbert, m, sites)\<close> is the matrix \<open>m\<close> acting on the listed sites, and
  \<^verbatim>\<open>+=\<close> and \<^verbatim>\<open>*=\<close> form sums and products. The Hilbert space is given by its number of
  sites.
\<close>

datatype 'a operator =
    LocalOperatorC nat 'a
  | LocalOperator nat "'a matrix" "int list"
  | OpSum "'a operator" "'a operator"
  | OpProd "'a operator" "'a operator"

text \<open>
  The meaning of such an expression on qubits: its matrix element between two
  configurations (lists of occupations 0 or 1). A local matrix is addressed by the
  occupations of its sites, the first site most significant, and acts as the identity on
  all other sites.
\<close>

definition site_index :: "int list \<Rightarrow> int list \<Rightarrow> nat" where
  "site_index s sites = foldl (\<lambda>acc k. 2 * acc + nat (s ! nat k)) 0 sites"

fun configurations :: "nat \<Rightarrow> int list list" where
  "configurations 0 = [[]]"
| "configurations (Suc n) = concat (map (\<lambda>c. [0 # c, 1 # c]) (configurations n))"

fun matrix_element :: "'a::semiring_0 operator \<Rightarrow> int list \<Rightarrow> int list \<Rightarrow> 'a" where
  "matrix_element (LocalOperatorC hilbert c) s t = (if s = t then c else 0)"
| "matrix_element (LocalOperator hilbert m sites) s t =
     (if length s = length t \<and> list_all (\<lambda>p. int p \<in> set sites \<or> s ! p = t ! p) [0..<length s]
      then m ! site_index s sites ! site_index t sites else 0)"
| "matrix_element (OpSum A B) s t = matrix_element A s t + matrix_element B s t"
| "matrix_element (OpProd A B) s t =
     (\<Sum>u\<leftarrow>configurations (length s). matrix_element A s u * matrix_element B u t)"

section \<open>The Rydberg Hamiltonian (tomography notebook)\<close>

definition generatehamiltonian :: "nat \<Rightarrow> int \<Rightarrow> int \<Rightarrow> real \<Rightarrow> real \<Rightarrow> real \<Rightarrow> real operator" where
  "generatehamiltonian hilbert Lx Ly V Omega delta =
     (let N = Lx * Ly in
      case buildlattice Lx Ly of (nn, nnn, nnnn) \<Rightarrow>
      let P = [[0, 0], [0, 1]];
          PP = kron P P;
          sx = [[0, 1], [1, 0]];
          H = LocalOperatorC hilbert 0;
          H = foldl (\<lambda>H j. OpSum H (LocalOperator hilbert (scale (- 0.5 * Omega) sx) [j])) H (py_range N);
          H = foldl (\<lambda>H j. OpSum H (LocalOperator hilbert (scale (- delta) P) [j])) H (py_range N);
          H = foldl (\<lambda>H bond. OpSum H (LocalOperator hilbert (scale V PP) [fst bond, snd bond])) H nn;
          H = foldl (\<lambda>H bond. OpSum H (LocalOperator hilbert (scale (V / 8.0) PP) [fst bond, snd bond])) H nnn;
          H = foldl (\<lambda>H bond. OpSum H (LocalOperator hilbert (scale (V / 64.0) PP) [fst bond, snd bond])) H nnnn
      in H)"

section \<open>Pauli strings (BeH2 notebook)\<close>

definition pauli_I :: "complex matrix" where
  "pauli_I = [[1, 0], [0, 1]]"

definition pauli_X :: "complex matrix" where
  "pauli_X = [[0, 1], [1, 0]]"

definition pauli_Y :: "complex matrix" where
  "pauli_Y = [[0, - \<i>], [\<i>, 0]]"

definition pauli_Z :: "complex matrix" where
  "pauli_Z = [[1, 0], [0, - 1]]"

definition reduce :: "('a \<Rightarrow> 'a \<Rightarrow> 'a) \<Rightarrow> 'a list \<Rightarrow> error + 'a" where
  \<comment> \<open>\<^verbatim>\<open>functools.reduce\<close> without an initial value: TypeError on the empty list\<close>
  "reduce f xs = (case xs of [] \<Rightarrow> Inl TypeError | x # rest \<Rightarrow> Inr (foldl f x rest))"

definition operatorfromstring :: "string \<Rightarrow> error + complex matrix" where
  "operatorfromstring pauli_string =
     (let op_list = foldl (\<lambda>op_list k.
            if pauli_string ! nat k = CHR ''X'' then op_list @ [pauli_X]
            else if pauli_string ! nat k = CHR ''Y'' then op_list @ [pauli_Y]
            else if pauli_string ! nat k = CHR ''Z'' then op_list @ [pauli_Z]
            else op_list @ [pauli_I]) [] (py_range (int (length pauli_string)))
      in reduce kron op_list)"

definition iadd :: "'a::plus matrix \<Rightarrow> 'a matrix \<Rightarrow> error + 'a matrix" where
  \<comment> \<open>numpy's in-place \<^verbatim>\<open>H += M\<close> on two-dimensional arrays: \<open>M\<close> is broadcast to the shape
      of \<open>H\<close>, which stays as it is\<close>
  "iadd H M =
     (let r = length H; c = (if H = [] then 0 else length (hd H));
          mr = length M; mc = (if M = [] then 0 else length (hd M))
      in if (mr = r \<or> mr = 1) \<and> (mc = c \<or> mc = 1)
         then Inr (map (\<lambda>i. map (\<lambda>j. H ! i ! j + M ! (if mr = 1 then 0 else i) ! (if mc = 1 then 0 else j))
                              [0..<c]) [0..<r])
         else Inl ValueError)"

definition hamiltonian :: "string list \<Rightarrow> complex list \<Rightarrow> error + complex matrix" where
  "hamiltonian pauli_list interactions =
     (case py_index pauli_list 0 of Inl e \<Rightarrow> Inl e
      | Inr p0 \<Rightarrow>
        let N = length p0;
            hamiltonian = replicate (2 ^ N) (replicate (2 ^ N) 0)
        in fold_res (\<lambda>hamiltonian (i, pauli).
               (case py_index interactions (int i) of Inl e \<Rightarrow> Inl e
                | Inr c \<Rightarrow> (case operatorfromstring pauli of Inl e \<Rightarrow> Inl e
                | Inr M \<Rightarrow> iadd hamiltonian (scale c M))))
             (enumerate 0 pauli_list) hamiltonian)"

text \<open>
  \<^verbatim>\<open>np.linalg.eigh\<close> is library code: it is a parameter of \<^verbatim>\<open>eigensolve\<close>, returning the array
  of eigenvalues and the matrix of eigenvectors, or raising.
\<close>

type_synonym eigh = "complex matrix \<Rightarrow> error + real list \<times> complex matrix"

definition eigensolve :: "eigh \<Rightarrow> complex matrix \<Rightarrow> error + real \<times> complex list" where
  \<comment> \<open>\<open>ham\<close> is the argument \<^verbatim>\<open>hamiltonian\<close>; the pair is built from left to right\<close>
  "eigensolve eigh ham =
     (case eigh ham of Inl e \<Rightarrow> Inl e
      | Inr (eigenvalues, eigenstates) \<Rightarrow>
        (case py_index eigenvalues 0 of Inl e \<Rightarrow> Inl e
         | Inr e0 \<Rightarrow>
           (case column eigenstates 0 of Inl e \<Rightarrow> Inl e
            | Inr v0 \<Rightarrow> Inr (e0, v0))))"

definition OperatorFromString :: "string \<Rightarrow> error + (int list \<times> complex matrix)" where
  "OperatorFromString op_string =
     (case foldl (\<lambda>(OpList, Sites) k.
            if op_string ! nat k = CHR ''X'' then (OpList @ [pauli_X], Sites @ [k])
            else if op_string ! nat k = CHR ''Y'' then (OpList @ [pauli_Y], Sites @ [k])
            else if op_string ! nat k = CHR ''Z'' then (OpList @ [pauli_Z], Sites @ [k])
            else (OpList, Sites)) ([], []) (py_range (int (length op_string))) of
        (OpList, Sites) \<Rightarrow>
          (case reduce kron OpList of Inl e \<Rightarrow> Inl e | Inr M \<Rightarrow> Inr (Sites, M)))"

fun pauli_flag :: "string \<Rightarrow> int list \<Rightarrow> error + int" where
  \<comment> \<open>the inner loop of \<^verbatim>\<open>BuildHamiltonian\<close> over the remaining values of \<open>j\<close>, with its
      \<^verbatim>\<open>break\<close>: the value of \<^verbatim>\<open>flag\<close> afterwards\<close>
  "pauli_flag p [] = Inr 0"
| "pauli_flag p (j # js) =
     (case py_index p j of Inl e \<Rightarrow> Inl e
      | Inr c \<Rightarrow> if c \<noteq> CHR ''I'' then Inr 1 else pauli_flag p js)"

definition BuildHamiltonian_term ::
  "int \<Rightarrow> nat \<Rightarrow> string list \<Rightarrow> complex list \<Rightarrow> complex operator \<Rightarrow> int \<Rightarrow> error + complex operator" where
  \<comment> \<open>the body of the loop over \<open>h\<close>; \<open>ham\<close> is the variable \<^verbatim>\<open>hamiltonian\<close>\<close>
  "BuildHamiltonian_term N hilbert pauli interactions ham h =
     (case pauli_flag (pauli ! nat h) (py_range N) of Inl e \<Rightarrow> Inl e
      | Inr flag \<Rightarrow>
        if flag = 0 then
          (case py_index interactions h of Inl e \<Rightarrow> Inl e
           | Inr c \<Rightarrow> Inr (OpSum ham (LocalOperatorC hilbert (complex_of_real (Re c)))))
        else
          (case OperatorFromString (pauli ! nat h) of Inl e \<Rightarrow> Inl e
           | Inr (sites, operator) \<Rightarrow>
             (case py_index interactions h of Inl e \<Rightarrow> Inl e
              | Inr c \<Rightarrow> Inr (OpSum ham (LocalOperator hilbert (scale c operator) sites)))))"

definition BuildHamiltonian ::
  "int \<Rightarrow> nat \<Rightarrow> string list \<Rightarrow> complex list \<Rightarrow> error + complex operator" where
  \<comment> \<open>\<open>pauli\<close> and \<open>interactions\<close> are the arrays that \<^verbatim>\<open>np.load\<close> reads from the two paths\<close>
  "BuildHamiltonian N hilbert pauli interactions =
     fold_res (BuildHamiltonian_term N hilbert pauli interactions)
       (py_range (int (length pauli))) (LocalOperatorC hilbert 0)"

text \<open>The words of the claims about Pauli strings.\<close>

definition pauli_matrix :: "char \<Rightarrow> complex matrix" where
  "pauli_matrix c =
     (if c = CHR ''X'' then pauli_X else if c = CHR ''Y'' then pauli_Y
      else if c = CHR ''Z'' then pauli_Z else pauli_I)"

definition kron_product :: "'a::{times,one} matrix list \<Rightarrow> 'a matrix" where
  \<comment> \<open>the Kronecker product of a list of matrices, in order\<close>
  "kron_product ms = foldr kron ms [[1]]"

definition is_pauli_string :: "string \<Rightarrow> bool" where
  "is_pauli_string p \<longleftrightarrow> set p \<subseteq> {CHR ''I'', CHR ''X'', CHR ''Y'', CHR ''Z''}"

definition nonidentity_sites :: "string \<Rightarrow> int list" where
  "nonidentity_sites p = map int (filter (\<lambda>k. p ! k \<noteq> CHR ''I'') [0..<length p])"

definition pauli_term :: "nat \<Rightarrow> string \<Rightarrow> complex \<Rightarrow> complex operator" where
  "pauli_term hilbert p c =
     (if list_all (\<lambda>ch. ch = CHR ''I'') p then LocalOperatorC hilbert (complex_of_real (Re c))
      else LocalOperator hilbert
             (scale c (kron_product (map pauli_matrix (filter (\<lambda>ch. ch \<noteq> CHR ''I'') p))))
             (nonidentity_sites p))"

text \<open>The matrix with \<open>n\<close> rows and \<open>n\<close> columns whose entries are given by a function.\<close>

definition matrix_of :: "nat \<Rightarrow> (nat \<Rightarrow> nat \<Rightarrow> 'a) \<Rightarrow> 'a matrix" where
  "matrix_of n F = map (\<lambda>i. map (\<lambda>j. F i j) [0..<n]) [0..<n]"

definition square_matrix :: "nat \<Rightarrow> 'a matrix \<Rightarrow> bool" where
  "square_matrix n M \<longleftrightarrow> length M = n \<and> list_all (\<lambda>row. length row = n) M"

text \<open>
  The words of the claim about the ground state. A vector \<open>x\<close> of \<open>n\<close> entries, not all zero,
  is an eigenvector of \<open>A\<close> for \<open>\<mu>\<close> when \<open>A x = \<mu> x\<close>; it is a unit vector when the squares of
  the moduli of its entries add up to one.
\<close>

definition mat_vec :: "complex matrix \<Rightarrow> complex list \<Rightarrow> complex list" where
  "mat_vec A x = map (\<lambda>row. sum_list (map2 (*) row x)) A"

definition eigenpair :: "nat \<Rightarrow> complex matrix \<Rightarrow> complex \<Rightarrow> complex list \<Rightarrow> bool" where
  "eigenpair n A \<mu> x \<longleftrightarrow>
     length x = n \<and> x \<noteq> replicate n 0 \<and> mat_vec A x = map (\<lambda>c. \<mu> * c) x"

definition unit_vector :: "complex list \<Rightarrow> bool" where
  "unit_vector x \<longleftrightarrow> (\<Sum>c\<leftarrow>x. (Re c)\<^sup>2 + (Im c)\<^sup>2) = 1"

definition hermitian :: "nat \<Rightarrow> complex matrix \<Rightarrow> bool" where
  "hermitian n A \<longleftrightarrow>
     square_matrix n A \<and>
     list_all (\<lambda>i. list_all (\<lambda>j. A ! i ! j = cnj (A ! j ! i)) [0..<n]) [0..<n]"

text \<open>
  What the documentation of \<^verbatim>\<open>np.linalg.eigh\<close> promises of its result \<open>(w, v)\<close> on a Hermitian
  matrix of \<open>n\<close> rows, in exact arithmetic: \<open>w\<close> holds the eigenvalues in ascending order,
  \<open>n\<close> of them, and the column \<open>v[:, i]\<close> is a normalised eigenvector for \<open>w[i]\<close>.
\<close>

definition eigh_contract :: "eigh \<Rightarrow> nat \<Rightarrow> complex matrix \<Rightarrow> bool" where
  "eigh_contract eigh n A \<longleftrightarrow>
     (case eigh A of Inl e \<Rightarrow> False
      | Inr (w, v) \<Rightarrow>
          length w = n \<and> square_matrix n v \<and> sorted w \<and>
          (\<forall>\<mu>. (\<exists>x. eigenpair n A \<mu> x) \<longrightarrow> \<mu> \<in> complex_of_real ` set w) \<and>
          (\<forall>i<n. eigenpair n A (complex_of_real (w ! i)) (map (\<lambda>row. row ! i) v) \<and>
                  unit_vector (map (\<lambda>row. row ! i) v)))"

section \<open>Loading the measurement data (BeH2 notebook)\<close>

definition rotationX :: "complex matrix" where
  "rotationX = scale (complex_of_real (1 / sqrt 2)) [[1, 1], [1, - 1]]"

definition rotationY :: "complex matrix" where
  "rotationY = scale (complex_of_real (1 / sqrt 2)) [[1, - \<i>], [1, \<i>]]"

definition read_bases :: "int \<Rightarrow> string list \<Rightarrow> error + string list" where
  \<comment> \<open>the loop over the lines of the bases file\<close>
  "read_bases N lines =
     fold_res (\<lambda>bases b.
         if int (length b) = N + 1
         then Inr (bases @ [foldl (\<lambda>basis j. basis @ [b ! nat j]) [] (py_range N)])
         else Inl AssertionError) lines []"

type_synonym rotation_state = "string \<times> int \<times> complex operator list \<times> int list"

definition rotation_step :: "int \<Rightarrow> nat \<Rightarrow> rotation_state \<Rightarrow> string \<Rightarrow> rotation_state" where
  \<comment> \<open>the body of the loop over the sorted bases; the state is \<^verbatim>\<open>tmp\<close>, \<^verbatim>\<open>b_index\<close>,
      \<^verbatim>\<open>rotations\<close> and \<^verbatim>\<open>training_bases\<close>\<close>
  "rotation_step N hilbert st b =
     (case st of (tmp, b_index, rotations, training_bases) \<Rightarrow>
        if b \<noteq> tmp then
          (let tmp = b;
               localop = LocalOperatorC hilbert 1;
               localop = foldl (\<lambda>localop j.
                   let localop = (if tmp ! nat j = CHR ''X''
                                  then OpProd localop (LocalOperator hilbert rotationX [j])
                                  else localop)
                   in (if tmp ! nat j = CHR ''Y''
                       then OpProd localop (LocalOperator hilbert rotationY [j])
                       else localop)) localop (py_range N)
           in (tmp, b_index + 1, rotations @ [localop], training_bases @ [b_index + 1]))
        else (tmp, b_index, rotations, training_bases @ [b_index]))"

text \<open>
  What \<^verbatim>\<open>np.loadtxt\<close> returns is an array without axes of extent one: a file of several rows
  and several columns gives a two-dimensional array, a file of one row or of one column a
  one-dimensional array, and a file of a single number a zero-dimensional one. A
  two-dimensional array knows its number of columns, \<^verbatim>\<open>shape[1]\<close>.
\<close>

datatype ndarray = Array0 real | Array1 "real list" | Array2 nat "real list list"

definition LoadData ::
  "int \<Rightarrow> nat \<Rightarrow> ndarray \<Rightarrow> string list
     \<Rightarrow> error + (complex operator list \<times> real list list \<times> int list)" where
  \<comment> \<open>\<open>tsamples\<close> is the array that \<^verbatim>\<open>np.loadtxt\<close> returns, \<open>lines\<close> what \<^verbatim>\<open>readlines\<close>
      returns; \<^verbatim>\<open>tsamples.shape[1]\<close> raises IndexError unless the array has two axes;
      \<^verbatim>\<open>sorted\<close> with a key is a stable sort\<close>
  "LoadData N hilbert tsamples lines =
     (case tsamples of
        Array0 x \<Rightarrow> Inl IndexError
      | Array1 xs \<Rightarrow> Inl IndexError
      | Array2 columns rows \<Rightarrow>
        (if N \<noteq> int columns then Inl AssertionError
         else (case read_bases N lines of Inl e \<Rightarrow> Inl e
         | Inr bases \<Rightarrow>
           (let index_list = sort_key (\<lambda>k. bases ! nat k) (py_range (int (length bases)));
                bases = sort bases
            in (case fold_res (\<lambda>training_samples i.
                       (case py_index index_list i of Inl e \<Rightarrow> Inl e
                        | Inr k \<Rightarrow> (case py_index rows k of Inl e \<Rightarrow> Inl e
                        | Inr row \<Rightarrow> Inr (training_samples @ [row]))))
                     (py_range (int (length rows))) [] of Inl e \<Rightarrow> Inl e
               | Inr training_samples \<Rightarrow>
                 (case foldl (rotation_step N hilbert) ('''', - 1, [], []) bases of
                    (tmp, b_index, rotations, training_bases) \<Rightarrow>
                      Inr (rotations, training_samples, training_bases)))))))"

text \<open>The words of the claim about loading: the rotation that belongs to a basis string.\<close>

definition rotation_of :: "nat \<Rightarrow> string \<Rightarrow> complex operator" where
  "rotation_of hilbert b =
     foldl OpProd (LocalOperatorC hilbert 1)
       (map (\<lambda>j. LocalOperator hilbert (if b ! j = CHR ''X'' then rotationX else rotationY) [int j])
            (filter (\<lambda>j. b ! j = CHR ''X'' \<or> b ! j = CHR ''Y'') [0..<length b]))"

definition loaded ::
  "int \<Rightarrow> nat \<Rightarrow> real list list \<Rightarrow> string list
     \<Rightarrow> complex operator list \<times> real list list \<times> int list \<Rightarrow> bool" where
  \<comment> \<open>what the claim says of the triple returned, \<open>perm\<close> being the sorting permutation\<close>
  "loaded N hilbert tsamples lines result \<longleftrightarrow>
     (case result of (rotations, training_samples, training_bases) \<Rightarrow>
        let bases = map (take (nat N)) lines;
            n = length lines;
            perm = sort_key (\<lambda>k. bases ! k) [0..<n];
            distinct_bases = sorted_list_of_set (set bases)
        in distinct perm \<and> set perm = {0..<n} \<and>
           map (\<lambda>k. bases ! k) perm = sort bases \<and>
           training_samples = map (\<lambda>k. tsamples ! k) perm \<and>
           rotations = map (rotation_of hilbert) distinct_bases \<and>
           length training_bases = n \<and>
           list_all (\<lambda>i. 0 \<le> training_bases ! i \<and> nat (training_bases ! i) < length distinct_bases \<and>
                         distinct_bases ! nat (training_bases ! i) = sort bases ! i) [0..<n])"

text \<open>
  A small instance for exercising the theorems: a chain of two sites, a recurrent cell that
  keeps its hidden state and a dense layer with equal outputs.
\<close>

definition example_vmc :: vmc where
  "example_vmc = VariationalMonteCarlo 2 1 7 1 1 1 (\<lambda>x h. h) (\<lambda>h k. 0)"

text \<open>Three lines of a bases file for two qubits, each ending in a newline.\<close>

definition example_lines :: "string list" where
  "example_lines = [[CHR ''Z'', CHR ''Z'', CHR 0x0A], [CHR ''X'', CHR ''Z'', CHR 0x0A], [CHR ''Z'', CHR ''Z'', CHR 0x0A]]"

text \<open>
  A Hermitian matrix with the eigenvalues \<open>-1\<close> and \<open>4\<close>, and an \<^verbatim>\<open>eigh\<close> that is known at this
  matrix and at the matrix without rows.
\<close>

definition example_hermitian :: "complex matrix" where
  "example_hermitian = [[11 / 5, 12 * \<i> / 5], [- 12 * \<i> / 5, 4 / 5]]"

definition example_eigh :: eigh where
  "example_eigh A =
     (if A = example_hermitian then Inr ([- 1, 4], [[3 / 5, 4 * \<i> / 5], [4 * \<i> / 5, 3 / 5]])
      else if A = [] then Inr ([], [])
      else Inl LinAlgError)"

section \<open>Lattice lemmas\<close>

lemma foldl_append_one:
  "foldl (\<lambda>acc x. acc @ [f x]) a xs = a @ map f xs"
  by (induction xs arbitrary: a) simp_all

lemma foldl_append_two:
  "foldl (\<lambda>acc x. (acc @ [f x]) @ [g x]) a xs = a @ concat (map (\<lambda>x. [f x, g x]) xs)"
  by (induction xs arbitrary: a) simp_all

lemma foldl_append_many:
  "foldl (\<lambda>acc x. acc @ f x) a xs = a @ concat (map f xs)"
  by (induction xs arbitrary: a) simp_all

lemma vmc_buildlattice_eq:
  "vmc_buildlattice Lx Ly = (nn_bonds Lx Ly, nnn_bonds Lx Ly, nnnn_bonds Lx Ly)"
  by (simp add: vmc_buildlattice_def nn_bonds_def nnn_bonds_def nnnn_bonds_def
      vmc_coord_to_site_def foldl_append_one foldl_append_two foldl_append_many)

lemma buildlattice_eq:
  "buildlattice Lx Ly = (nn_bonds Lx Ly, nnn_bonds Lx Ly, nnnn_bonds Lx Ly)"
  by (simp add: buildlattice_def nn_bonds_def nnn_bonds_def nnnn_bonds_def
      coord_to_site_def foldl_append_one foldl_append_two foldl_append_many)

lemma set_py_range: "set (py_range n) = {0..<n}"
proof -
  have "int ` {0..<nat n} = {0..<n}"
    by (auto simp: image_iff) (use zero_le_imp_eq_int in force)
  then show ?thesis by (simp add: py_range_def)
qed

lemma length_py_range: "length (py_range n) = nat n"
  by (simp add: py_range_def)

lemma site_bounds:
  fixes Lx Ly x y :: int
  assumes "0 \<le> x" "x < Lx" "0 \<le> y" "y < Ly"
  shows "0 \<le> Ly * x + y" and "Ly * x + y < Lx * Ly"
proof -
  from assms have Ly: "0 \<le> Ly" by simp
  show "0 \<le> Ly * x + y" using assms Ly by simp
  have "x + 1 \<le> Lx" using assms by simp
  then have "Ly * (x + 1) \<le> Ly * Lx" using Ly by (rule mult_left_mono)
  then show "Ly * x + y < Lx * Ly" using assms by (simp add: algebra_simps)
qed

lemma length_concat_map_const:
  "length (concat (map (\<lambda>x. map (f x) ys) xs)) = length xs * length ys"
  by (induction xs) simp_all

lemma length_concat_map_two:
  "length (concat (map (\<lambda>x. concat (map (\<lambda>y. [f x y, g x y]) ys)) xs)) = 2 * (length xs * length ys)"
proof -
  have "length (concat (map (\<lambda>y. [f x y, g x y]) ys)) = 2 * length ys" for x
    by (induction ys) simp_all
  then show ?thesis by (induction xs) (simp_all add: algebra_simps)
qed

lemma length_nn_bonds: "1 \<le> Lx \<Longrightarrow> 1 \<le> Ly \<Longrightarrow> int (length (nn_bonds Lx Ly)) = Lx * (Ly - 1) + Ly * (Lx - 1)"
  by (simp add: nn_bonds_def length_concat_map_const length_py_range)

lemma length_nnn_bonds: "1 \<le> Lx \<Longrightarrow> 1 \<le> Ly \<Longrightarrow> int (length (nnn_bonds Lx Ly)) = 2 * (Lx - 1) * (Ly - 1)"
  by (simp add: nnn_bonds_def length_concat_map_two length_py_range algebra_simps)

lemma length_nnnn_bonds: "1 \<le> Lx \<Longrightarrow> 1 \<le> Ly \<Longrightarrow> int (length (nnnn_bonds Lx Ly)) = Ly * max (Lx - 2) 0 + Lx * max (Ly - 2) 0"
  by (simp add: nnnn_bonds_def length_concat_map_const length_py_range max_def)

lemma nn_bonds_in_lattice:
  assumes "b \<in> set (nn_bonds Lx Ly)" shows "in_lattice Lx Ly b"
proof -
  from assms consider
    (a) x y where "0 \<le> x" "x < Lx" "0 \<le> y" "y < Ly - 1" "b = (Ly * x + y, Ly * x + (y + 1))"
  | (b) x y where "0 \<le> x" "x < Lx - 1" "0 \<le> y" "y < Ly" "b = (Ly * x + y, Ly * (x + 1) + y)"
    by (auto simp: nn_bonds_def set_py_range)
  then show ?thesis
  proof cases
    case a
    then show ?thesis
      using site_bounds[of x Lx y Ly] site_bounds[of x Lx "y + 1" Ly]
      by (simp add: in_lattice_def)
  next
    case b
    then show ?thesis
      using site_bounds[of x Lx y Ly] site_bounds[of "x + 1" Lx y Ly]
      by (auto simp: in_lattice_def algebra_simps)
  qed
qed

lemma nnn_bonds_in_lattice:
  assumes "b \<in> set (nnn_bonds Lx Ly)" shows "in_lattice Lx Ly b"
proof -
  from assms obtain x y where xy: "0 \<le> x" "x < Lx - 1" "0 \<le> y" "y < Ly - 1"
    and b: "b = (Ly * x + y, Ly * (x + 1) + (y + 1)) \<or> b = (Ly * (x + 1) + y, Ly * x + (y + 1))"
    by (auto simp: nnn_bonds_def set_py_range)
  from xy show ?thesis
    using b site_bounds[of x Lx y Ly] site_bounds[of "x + 1" Lx "y + 1" Ly]
      site_bounds[of "x + 1" Lx y Ly] site_bounds[of x Lx "y + 1" Ly]
    by (auto simp: in_lattice_def algebra_simps)
qed

lemma nnnn_bonds_in_lattice:
  assumes "b \<in> set (nnnn_bonds Lx Ly)" shows "in_lattice Lx Ly b"
proof -
  from assms consider
    (a) x y where "0 \<le> x" "x < Lx - 2" "0 \<le> y" "y < Ly" "b = (Ly * x + y, Ly * (x + 2) + y)"
  | (b) x y where "0 \<le> x" "x < Lx" "0 \<le> y" "y < Ly - 2" "b = (Ly * x + y, Ly * x + (y + 2))"
    by (auto simp: nnnn_bonds_def set_py_range)
  then show ?thesis
  proof cases
    case a
    then show ?thesis
      using site_bounds[of x Lx y Ly] site_bounds[of "x + 2" Lx y Ly]
      by (auto simp: in_lattice_def algebra_simps)
  next
    case b
    then show ?thesis
      using site_bounds[of x Lx y Ly] site_bounds[of x Lx "y + 2" Ly]
      by (simp add: in_lattice_def)
  qed
qed

section \<open>Sites and bond counts of the lattice\<close>

text \<open>
  Claim C8. For \<open>Lx \<ge> 1\<close> and \<open>Ly \<ge> 1\<close>, every pair returned by \<^verbatim>\<open>buildlattice\<close>, in the
  VMC notebook and in the tomography notebook, consists of two distinct site indices in
  the range from 0 up to \<open>Lx * Ly\<close> (excluded), and the three lists have
  \<open>Lx*(Ly-1) + Ly*(Lx-1)\<close>, \<open>2*(Lx-1)*(Ly-1)\<close> and \<open>Ly*max(Lx-2,0) + Lx*max(Ly-2,0)\<close>
  elements.
\<close>

theorem buildlattice_sites_and_counts:
  assumes "1 \<le> Lx" and "1 \<le> Ly"
  shows "lattice_ok Lx Ly (vmc_buildlattice Lx Ly) \<and> lattice_ok Lx Ly (buildlattice Lx Ly)"
  using assms
  by (auto simp: lattice_ok_def vmc_buildlattice_eq buildlattice_eq list_all_iff
      nn_bonds_in_lattice nnn_bonds_in_lattice nnnn_bonds_in_lattice
      length_nn_bonds length_nnn_bonds length_nnnn_bonds)

theorem buildlattice_sites_and_counts_witness:
  "lattice_ok 3 2 (vmc_buildlattice 3 2) \<and> lattice_ok 3 2 (buildlattice 3 2)
   \<and> vmc_buildlattice 3 2 = ([(0,1),(2,3),(4,5),(0,2),(2,4),(1,3),(3,5)], [(0,3),(2,1),(2,5),(4,3)], [(0,4),(1,5)])"
  using buildlattice_sites_and_counts[of 3 2] 
  by (simp add: vmc_buildlattice_eq nn_bonds_def nnn_bonds_def nnnn_bonds_def py_range_def upt_rec)

section \<open>Lemmas on tensors and the local energy\<close>

lemma collect_map_Inr:
  "(\<And>x. x \<in> set xs \<Longrightarrow> g x = Inr (f x)) \<Longrightarrow> collect (map g xs) = Inr (map f xs)"
  by (induction xs) simp_all

lemma py_index_in_range:
  "0 \<le> j \<Longrightarrow> j < int (length xs) \<Longrightarrow> py_index xs j = Inr (xs ! nat j)"
  by (simp add: py_index_def)

lemma column_rows:
  assumes "\<And>s. s \<in> set smp \<Longrightarrow> int (length s) = n" and "0 \<le> j" and "j < n"
  shows "column smp j = Inr (map (\<lambda>s. s ! nat j) smp)"
  unfolding column_def using assms by (intro collect_map_Inr py_index_in_range) simp_all

lemma broadcast2_same:
  "length xs = length ys \<Longrightarrow> broadcast2 f xs ys = Inr (map2 f xs ys)"
  by (simp add: broadcast2_def)

lemma broadcast2_maps:
  "broadcast2 f (map E xs) (map G xs) = Inr (map (\<lambda>x. f (E x) (G x)) xs)"
  by (simp add: broadcast2_same map2_map_map)

lemma fold_res_add:
  fixes E :: "'a \<Rightarrow> real"
  assumes "\<And>E x. x \<in> set xs \<Longrightarrow> f (map E smp) x = Inr (map (\<lambda>s. E s + g x s) smp)"
  shows "fold_res f xs (map E smp) = Inr (map (\<lambda>s. E s + (\<Sum>x\<leftarrow>xs. g x s)) smp)"
  using assms
proof (induction xs arbitrary: E)
  case Nil
  then show ?case by simp
next
  case (Cons x xs)
  have "f (map E smp) x = Inr (map (\<lambda>s. E s + g x s) smp)"
    by (rule Cons.prems) simp
  moreover have "fold_res f xs (map (\<lambda>s. E s + g x s) smp)
      = Inr (map (\<lambda>s. (E s + g x s) + (\<Sum>x\<leftarrow>xs. g x s)) smp)"
    by (rule Cons.IH) (simp add: Cons.prems)
  ultimately show ?case by (simp add: add.assoc)
qed

lemma bond_term_rows:
  assumes rows: "\<And>s. s \<in> set smp \<Longrightarrow> int (length s) = n"
    and b: "0 \<le> fst b" "fst b < n" "0 \<le> snd b" "snd b < n"
  shows "bond_term c smp (map E smp) b
     = Inr (map (\<lambda>s. E s + c * real_of_int (int64 (s ! nat (fst b) * s ! nat (snd b)))) smp)"
proof -
  have ca: "column smp (fst b) = Inr (map (\<lambda>s. s ! nat (fst b)) smp)"
    using rows b by (intro column_rows[where n = n]) simp_all
  have cb: "column smp (snd b) = Inr (map (\<lambda>s. s ! nat (snd b)) smp)"
    using rows b by (intro column_rows[where n = n]) simp_all
  have "map (\<lambda>v. c * real_of_int v)
          (map2 (\<lambda>x y. int64 (x * y)) (map (\<lambda>s. s ! nat (fst b)) smp) (map (\<lambda>s. s ! nat (snd b)) smp))
        = map (\<lambda>s. c * real_of_int (int64 (s ! nat (fst b) * s ! nat (snd b)))) smp"
    by (simp add: map2_map_map)
  then show ?thesis
    by (simp only: bond_term_def ca cb sum.case broadcast2_maps)
qed

lemma chem_term_rows:
  assumes rows: "\<And>s. s \<in> set smp \<Longrightarrow> int (length s) = n" and j: "0 \<le> j" "j < n"
  shows "(case column smp j of Inl e \<Rightarrow> Inl e
          | Inr c \<Rightarrow> broadcast2 (+) (map E smp) (map (\<lambda>v. - d * real_of_int v) c))
     = Inr (map (\<lambda>s. E s + (- d * real_of_int (s ! nat j))) smp)"
proof -
  have cj: "column smp j = Inr (map (\<lambda>s. s ! nat j) smp)"
    using rows j by (intro column_rows[where n = n]) simp_all
  have "map (\<lambda>v. - d * real_of_int v) (map (\<lambda>s. s ! nat j) smp)
        = map (\<lambda>s. - d * real_of_int (s ! nat j)) smp"
    by simp
  then show ?thesis
    by (simp only: cj sum.case broadcast2_maps)
qed

lemma bond_loop_rows:
  assumes rows: "\<And>s. s \<in> set smp \<Longrightarrow> int (length s) = n"
    and bonds: "\<And>b. b \<in> set bonds \<Longrightarrow> 0 \<le> fst b \<and> fst b < n \<and> 0 \<le> snd b \<and> snd b < n"
  shows "fold_res (\<lambda>eloc k. bond_term c smp eloc (bonds ! nat k)) (py_range (int (length bonds))) (map E smp)
     = Inr (map (\<lambda>s. E s + (\<Sum>b\<leftarrow>bonds. c * real_of_int (int64 (s ! nat (fst b) * s ! nat (snd b))))) smp)"
proof -
  let ?g = "\<lambda>b s. c * real_of_int (int64 (s ! nat (fst b) * s ! nat (snd b)))"
  have step: "bond_term c smp (map E' smp) (bonds ! nat k) = Inr (map (\<lambda>s. E' s + ?g (bonds ! nat k) s) smp)"
    if "k \<in> set (py_range (int (length bonds)))" for E' k
  proof -
    from that have "nat k < length bonds" by (auto simp: set_py_range)
    then have "bonds ! nat k \<in> set bonds" by simp
    from bonds[OF this] show ?thesis by (intro bond_term_rows[where n = n] rows) simp_all
  qed
  have "fold_res (\<lambda>eloc k. bond_term c smp eloc (bonds ! nat k)) (py_range (int (length bonds))) (map E smp)
      = Inr (map (\<lambda>s. E s + (\<Sum>k\<leftarrow>py_range (int (length bonds)). ?g (bonds ! nat k) s)) smp)"
    by (rule fold_res_add) (rule step)
  moreover have "(\<Sum>k\<leftarrow>py_range (int (length bonds)). ?g (bonds ! nat k) s) = (\<Sum>b\<leftarrow>bonds. ?g b s)" for s
  proof -
    have "map (\<lambda>k. ?g (bonds ! nat k) s) (py_range (int (length bonds)))
        = map (\<lambda>b. ?g b s) (map (\<lambda>i. bonds ! i) [0..<length bonds])"
      by (simp add: py_range_def comp_def)
    then show ?thesis by (simp only: map_nth)
  qed
  ultimately show ?thesis by simp
qed

lemma sum_list_neg_mult:
  fixes f :: "'a \<Rightarrow> real"
  shows "(\<Sum>x\<leftarrow>xs. - (d * f x)) = - (d * (\<Sum>x\<leftarrow>xs. f x))"
  by (induction xs) (simp_all add: algebra_simps)

lemma chem_loop_rows:
  assumes rows: "\<And>s. s \<in> set smp \<Longrightarrow> int (length s) = n"
  shows "fold_res (\<lambda>eloc j. case column smp j of Inl e \<Rightarrow> Inl e
             | Inr c \<Rightarrow> broadcast2 (+) eloc (map (\<lambda>v. - d * real_of_int v) c)) (py_range n) (map E smp)
     = Inr (map (\<lambda>s. E s + (- d) * (\<Sum>j\<leftarrow>[0..<nat n]. real_of_int (s ! j))) smp)"
proof -
  let ?g = "\<lambda>j s. - d * real_of_int (s ! nat j)"
  have "fold_res (\<lambda>eloc j. case column smp j of Inl e \<Rightarrow> Inl e
             | Inr c \<Rightarrow> broadcast2 (+) eloc (map (\<lambda>v. - d * real_of_int v) c)) (py_range n) (map E smp)
      = Inr (map (\<lambda>s. E s + (\<Sum>j\<leftarrow>py_range n. ?g j s)) smp)"
  proof (rule fold_res_add)
    fix E' j assume "j \<in> set (py_range n)"
    then have "0 \<le> j" "j < n" by (auto simp: set_py_range)
    then show "(case column smp j of Inl e \<Rightarrow> Inl e
             | Inr c \<Rightarrow> broadcast2 (+) (map E' smp) (map (\<lambda>v. - d * real_of_int v) c))
        = Inr (map (\<lambda>s. E' s + ?g j s) smp)"
      by (intro chem_term_rows[where n = n] rows)
  qed
  moreover have "(\<Sum>j\<leftarrow>py_range n. ?g j s) = (- d) * (\<Sum>j\<leftarrow>[0..<nat n]. real_of_int (s ! j))" for s
    by (simp add: py_range_def comp_def sum_list_neg_mult)
  ultimately show ?thesis by simp
qed


lemma int64_small: "- (2 ^ 63) \<le> x \<Longrightarrow> x < 2 ^ 63 \<Longrightarrow> int64 x = x"
  by (simp add: int64_def)

lemma int64_bit_product:
  assumes "a \<in> {0, 1}" "b \<in> {0, 1}" shows "int64 (a * b) = a * b"
  using assms by (auto simp: int64_small)

lemma int64_bit_flip:
  assumes "a \<in> {0, 1::int}" shows "int64 (1 - a) = 1 - a"
  using assms by (auto simp: int64_small)

lemma vmc_fields:
  assumes "vm = VariationalMonteCarlo Lx Ly V Omega delta nh cell affine"
  shows "self_N vm = Lx * Ly" "self_Lx vm = Lx" "self_Ly vm = Ly"
    "self_nn vm = nn_bonds Lx Ly" "self_nnn vm = nnn_bonds Lx Ly" "self_nnnn vm = nnnn_bonds Lx Ly"
    "self_V vm = V" "self_Omega vm = Omega" "self_delta vm = delta"
  using assms by (simp_all add: VariationalMonteCarlo_def vmc_buildlattice_eq)

lemma bond_sum_int64:
  assumes bonds: "\<And>b. b \<in> set bonds \<Longrightarrow> 0 \<le> fst b \<and> fst b < int (length s) \<and> 0 \<le> snd b \<and> snd b < int (length s)"
    and s: "set s \<subseteq> {0, 1}"
  shows "(\<Sum>b\<leftarrow>bonds. c * real_of_int (int64 (s ! nat (fst b) * s ! nat (snd b)))) = c * bond_sum bonds s"
proof -
  have "int64 (s ! nat (fst b) * s ! nat (snd b)) = s ! nat (fst b) * s ! nat (snd b)"
    if "b \<in> set bonds" for b
  proof -
    from bonds[OF that] have "nat (fst b) < length s" "nat (snd b) < length s" by linarith+
    then have "s ! nat (fst b) \<in> {0, 1}" "s ! nat (snd b) \<in> {0, 1}"
      using s nth_mem by blast+
    then show ?thesis by (rule int64_bit_product)
  qed
  then have "map (\<lambda>b. c * real_of_int (int64 (s ! nat (fst b) * s ! nat (snd b)))) bonds
      = map (\<lambda>b. c * real_of_int (s ! nat (fst b) * s ! nat (snd b))) bonds"
    by simp
  then show ?thesis
    unfolding bond_sum_def by (simp only: sum_list_const_mult)
qed

lemma in_lattice_bounds:
  "in_lattice Lx Ly b \<Longrightarrow> 0 \<le> fst b \<and> fst b < Lx * Ly \<and> 0 \<le> snd b \<and> snd b < Lx * Ly"
  by (simp add: in_lattice_def)

lemma localenergy_diagonal_rows:
  assumes vm: "vm = VariationalMonteCarlo Lx Ly V Omega delta nh cell affine"
    and rows: "\<And>s. s \<in> set smp \<Longrightarrow> int (length s) = self_N vm \<and> set s \<subseteq> {0, 1}"
  shows "localenergy_diagonal vm smp = Inr (map (diagonal_energy vm) smp)"
proof -
  note f = vmc_fields[OF vm]
  have len: "\<And>s. s \<in> set smp \<Longrightarrow> int (length s) = self_N vm" using rows by simp
  have b1: "\<And>b. b \<in> set (self_nn vm) \<Longrightarrow> 0 \<le> fst b \<and> fst b < self_N vm \<and> 0 \<le> snd b \<and> snd b < self_N vm"
    unfolding f by (rule in_lattice_bounds) (rule nn_bonds_in_lattice)
  have b2: "\<And>b. b \<in> set (self_nnn vm) \<Longrightarrow> 0 \<le> fst b \<and> fst b < self_N vm \<and> 0 \<le> snd b \<and> snd b < self_N vm"
    unfolding f by (rule in_lattice_bounds) (rule nnn_bonds_in_lattice)
  have b3: "\<And>b. b \<in> set (self_nnnn vm) \<Longrightarrow> 0 \<le> fst b \<and> fst b < self_N vm \<and> 0 \<le> snd b \<and> snd b < self_N vm"
    unfolding f by (rule in_lattice_bounds) (rule nnnn_bonds_in_lattice)
  have zero: "replicate (length smp) (0::real) = map (\<lambda>s. 0) smp"
    by (simp add: map_replicate_const)
  let ?E = "\<lambda>s. (((0 + (- self_delta vm) * (\<Sum>j\<leftarrow>[0..<nat (self_N vm)]. real_of_int (s ! j)))
      + (\<Sum>b\<leftarrow>self_nn vm. self_V vm * real_of_int (int64 (s ! nat (fst b) * s ! nat (snd b)))))
      + (\<Sum>b\<leftarrow>self_nnn vm. (self_V vm / 8.0) * real_of_int (int64 (s ! nat (fst b) * s ! nat (snd b)))))
      + (\<Sum>b\<leftarrow>self_nnnn vm. (self_V vm / 64.0) * real_of_int (int64 (s ! nat (fst b) * s ! nat (snd b))))"
  have "localenergy_diagonal vm smp = Inr (map ?E smp)"
    unfolding localenergy_diagonal_def Let_def zero
    by (simp only: chem_loop_rows[OF len] bond_loop_rows[OF len b1] bond_loop_rows[OF len b2]
        bond_loop_rows[OF len b3] sum.case)
  moreover have "?E s = diagonal_energy vm s" if "s \<in> set smp" for s
  proof -
    from rows[OF that] have l: "int (length s) = self_N vm" and s: "set s \<subseteq> {0, 1}" by simp_all
    show ?thesis
      unfolding diagonal_energy_def
      using bond_sum_int64[OF _ s, of "self_nn vm" "self_V vm"] b1
        bond_sum_int64[OF _ s, of "self_nnn vm" "self_V vm / 8.0"] b2
        bond_sum_int64[OF _ s, of "self_nnnn vm" "self_V vm / 64.0"] b3
      by (simp add: l f vmc_buildlattice_eq)
  qed
  ultimately show ?thesis by simp
qed


lemma map2_replicate_left:
  "length ys = n \<Longrightarrow> map2 f (replicate n c) ys = map (f c) ys"
  by (induction ys arbitrary: n) auto

lemma map2_replicate_right:
  "length xs = n \<Longrightarrow> map2 f xs (replicate n c) = map (\<lambda>x. f x c) xs"
  by (induction xs arbitrary: n) auto

lemma length_rnn: "length (fst (rnn cell xs h)) = length xs"
  by (induction xs arbitrary: h) (simp_all add: Let_def case_prod_beta)

lemma logpsi_rowwise:
  "logpsi vm smp =
     (case collect (map (logpsi_weighted vm) smp) of Inl e \<Rightarrow> Inl e
      | Inr ws \<Rightarrow> Inr (map (\<lambda>w. 0.5 * sum_list (map sum_list w)) ws))"
proof -
  have eq: "map2 (broadcast2 (map2 (*)))
          (map (map (map (\<lambda>q. ln (1 / 10 ^ 10 + q))))
            (map (map (dense vm))
              (map fst (map2 (rnn (rnn_cell vm))
                 (map2 (@) (replicate (length smp) [replicate (self_K vm) 0])
                    (map (\<lambda>s. map (one_hot (self_K vm)) (py_slice_to s (self_N vm - 1))) smp))
                 (replicate (length smp) (replicate (self_nh vm) 0))))))
          (map (map (one_hot (self_K vm))) smp)
      = map (logpsi_weighted vm) smp"
    by (simp add: map2_replicate_left map2_replicate_right map2_map_map logpsi_weighted_def comp_def)
  show ?thesis
    unfolding logpsi_def Let_def eq by (simp add: comp_def split: sum.splits)
qed

lemma logpsi_weighted_ok:
  assumes "int (length s) = self_N vm"
  shows "\<exists>w. logpsi_weighted vm s = Inr w"
proof (cases "s = []")
  case True
  then show ?thesis
    using assms by (simp add: logpsi_weighted_def broadcast2_def py_slice_to_def length_rnn del: rnn.simps)
next
  case False
  then have "1 \<le> self_N vm" using assms by (cases s) auto
  then have "length (py_slice_to s (self_N vm - 1)) = length s - 1"
    using assms by (simp add: py_slice_to_def)
  then show ?thesis
    using False by (simp add: logpsi_weighted_def broadcast2_def length_rnn del: rnn.simps)
qed

lemma logpsi_wellshaped:
  assumes rows: "\<And>s. s \<in> set smp \<Longrightarrow> int (length s) = self_N vm"
  shows "logpsi vm smp = Inr (map (log_amplitude vm) smp)"
proof -
  let ?post = "\<lambda>w :: real list list. 0.5 * sum_list (map sum_list w)"
  have one: "logpsi_weighted vm s = Inr (projr (logpsi_weighted vm s))" if "int (length s) = self_N vm" for s
    using logpsi_weighted_ok[OF that] by auto
  have amp: "log_amplitude vm s = ?post (projr (logpsi_weighted vm s))" if "int (length s) = self_N vm" for s
  proof -
    from logpsi_weighted_ok[OF that] obtain w where "logpsi_weighted vm s = Inr w" by blast
    then show ?thesis by (simp add: log_amplitude_def logpsi_rowwise[of vm "[s]"])
  qed
  have "collect (map (logpsi_weighted vm) smp) = Inr (map (\<lambda>s. projr (logpsi_weighted vm s)) smp)"
    by (rule collect_map_Inr) (rule one, rule rows)
  then have "logpsi vm smp = Inr (map (\<lambda>s. ?post (projr (logpsi_weighted vm s))) smp)"
    by (simp add: logpsi_rowwise comp_def)
  also have "map (\<lambda>s. ?post (projr (logpsi_weighted vm s))) smp = map (log_amplitude vm) smp"
    by (rule map_cong) (simp_all add: amp rows)
  finally show ?thesis .
qed


lemma flip_column_rows:
  assumes rows: "\<And>s. s \<in> set smp \<Longrightarrow> int (length s) = n" and j: "0 \<le> j" "j < n"
  shows "flip_column smp j = Inr (map (\<lambda>s. s[nat j := int64 (1 - s ! nat j)]) smp)"
  unfolding flip_column_def
proof (rule collect_map_Inr)
  fix s assume "s \<in> set smp"
  with rows j have "py_index s j = Inr (s ! nat j)" by (intro py_index_in_range) simp_all
  then show "flip_row s j = Inr (s[nat j := int64 (1 - s ! nat j)])"
    using j by (simp add: flip_row_def)
qed

lemma offdiagonal_frame:
  "n \<le> length h \<Longrightarrow>
     take n (fst (localenergy_offdiagonal vm a lp js h eloc)) = take n h"
proof (induction js arbitrary: h eloc)
  case Nil
  then show ?case by simp
next
  case (Cons j js)
  have step: "take n (fst (localenergy_offdiagonal vm a lp js (h @ [arr]) e)) = take n h" for arr e
  proof -
    have "take n (fst (localenergy_offdiagonal vm a lp js (h @ [arr]) e)) = take n (h @ [arr])"
      using Cons.prems by (intro Cons.IH) simp
    also have "\<dots> = take n h" using Cons.prems by simp
    finally show ?thesis .
  qed
  show ?case
    using Cons.prems by (simp add: np_copy_def Let_def step split: sum.splits)
qed

lemma offdiagonal_rows:
  assumes rows: "\<And>s. s \<in> set smp \<Longrightarrow> int (length s) = self_N vm"
    and js: "\<And>j. j \<in> set js \<Longrightarrow> 0 \<le> j \<and> j < self_N vm"
    and a: "a < length h" "h ! a = smp"
  shows "snd (localenergy_offdiagonal vm a (map (log_amplitude vm) smp) js h (map E smp))
     = Inr (map (\<lambda>s. E s + (\<Sum>j\<leftarrow>js. - 0.5 * self_Omega vm *
              exp (log_amplitude vm (s[nat j := int64 (1 - s ! nat j)]) - log_amplitude vm s))) smp)"
  using js a
proof (induction js arbitrary: h E)
  case Nil
  then show ?case by simp
next
  case (Cons j js)
  let ?fl = "\<lambda>s. s[nat j := int64 (1 - s ! nat j)]"
  let ?g = "\<lambda>j s. - 0.5 * self_Omega vm *
              exp (log_amplitude vm (s[nat j := int64 (1 - s ! nat j)]) - log_amplitude vm s)"
  let ?h2 = "(h @ [h ! a])[length h := map ?fl smp]"
  from Cons.prems have j: "0 \<le> j" "j < self_N vm" by simp_all
  have fc: "flip_column smp j = Inr (map ?fl smp)"
    using rows j by (intro flip_column_rows[where n = "self_N vm"]) simp_all
  have lp: "logpsi vm (map ?fl smp) = Inr (map (log_amplitude vm) (map ?fl smp))"
    by (rule logpsi_wellshaped) (auto simp: rows)
  have sub: "broadcast2 (-) (map (log_amplitude vm) (map ?fl smp)) (map (log_amplitude vm) smp)
      = Inr (map (\<lambda>s. log_amplitude vm (?fl s) - log_amplitude vm s) smp)"
    by (simp add: broadcast2_same map2_map_map)
  have add: "broadcast2 (+) (map E smp)
        (map (\<lambda>x. - 0.5 * self_Omega vm * exp x)
           (map (\<lambda>s. log_amplitude vm (?fl s) - log_amplitude vm s) smp))
      = Inr (map (\<lambda>s. E s + ?g j s) smp)"
    by (simp add: broadcast2_same map2_map_map)
  have rec: "snd (localenergy_offdiagonal vm a (map (log_amplitude vm) smp) js ?h2 (map (\<lambda>s. E s + ?g j s) smp))
      = Inr (map (\<lambda>s. (E s + ?g j s) + (\<Sum>j\<leftarrow>js. ?g j s)) smp)"
    using Cons.prems by (intro Cons.IH) (simp_all add: nth_append)
  have eq: "localenergy_offdiagonal vm a (map (log_amplitude vm) smp) (j # js) h (map E smp)
      = localenergy_offdiagonal vm a (map (log_amplitude vm) smp) js ?h2 (map (\<lambda>s. E s + ?g j s) smp)"
    using Cons.prems(3)
    by (simp only: localenergy_offdiagonal.simps np_copy_def prod.case nth_append_length
        fc sum.case Let_def nth_list_update_eq length_append_singleton lessI lp sub add)
  have "snd (localenergy_offdiagonal vm a (map (log_amplitude vm) smp) (j # js) h (map E smp))
      = Inr (map (\<lambda>s. (E s + ?g j s) + (\<Sum>j\<leftarrow>js. ?g j s)) smp)"
    by (simp only: eq rec)
  also have "map (\<lambda>s. (E s + ?g j s) + (\<Sum>j\<leftarrow>js. ?g j s)) smp
      = map (\<lambda>s. E s + (\<Sum>j\<leftarrow>j # js. ?g j s)) smp"
    by (simp add: add.assoc)
  finally show ?case .
qed

lemma sum_list_scaled:
  fixes f :: "'a \<Rightarrow> real"
  shows "(\<Sum>x\<leftarrow>xs. - a * b * f x) = - (a * b * (\<Sum>x\<leftarrow>xs. f x))"
  by (induction xs) (simp_all add: algebra_simps)

lemma local_energy_value_sum:
  assumes l: "int (length s) = self_N vm" and s: "set s \<subseteq> {0, 1}"
  shows "diagonal_energy vm s + (\<Sum>j\<leftarrow>py_range (self_N vm). - 0.5 * self_Omega vm *
              exp (log_amplitude vm (s[nat j := int64 (1 - s ! nat j)]) - log_amplitude vm s))
       = local_energy_value vm s"
proof -
  have fl: "s[j := int64 (1 - s ! j)] = flip j s" if "j \<in> set [0..<nat (self_N vm)]" for j
  proof -
    from that l have "j < length s" by simp
    then have "s ! j \<in> {0, 1}" using s nth_mem by blast
    then show ?thesis by (simp only: flip_def int64_bit_flip)
  qed
  have "map (\<lambda>j. - 0.5 * self_Omega vm *
              exp (log_amplitude vm (s[nat j := int64 (1 - s ! nat j)]) - log_amplitude vm s)) (py_range (self_N vm))
      = map (\<lambda>j. - 0.5 * self_Omega vm *
              exp (log_amplitude vm (s[j := int64 (1 - s ! j)]) - log_amplitude vm s)) [0..<nat (self_N vm)]"
    by (simp add: py_range_def comp_def)
  also have "\<dots> = map (\<lambda>j. - 0.5 * self_Omega vm *
              exp (log_amplitude vm (flip j s) - log_amplitude vm s)) [0..<nat (self_N vm)]"
    by (rule map_cong) (simp_all only: fl)
  finally have "(\<Sum>j\<leftarrow>py_range (self_N vm). - 0.5 * self_Omega vm *
              exp (log_amplitude vm (s[nat j := int64 (1 - s ! nat j)]) - log_amplitude vm s))
      = (\<Sum>j\<leftarrow>[0..<nat (self_N vm)]. - 0.5 * self_Omega vm *
              exp (log_amplitude vm (flip j s) - log_amplitude vm s))"
    by (rule arg_cong)
  also have "\<dots> = - (0.5 * self_Omega vm * (\<Sum>j\<leftarrow>[0..<nat (self_N vm)].
              exp (log_amplitude vm (flip j s) - log_amplitude vm s)))"
    by (rule sum_list_scaled)
  finally show ?thesis
    by (simp add: local_energy_value_def)
qed

lemma upt2: "[0..<2] = [0, 1]" by (simp add: upt_rec)

lemma example_logpsi:
  "logpsi example_vmc [[a, b]] =
     Inr [0.5 * ((ln (1 / 10 ^ 10 + 1 / 2) * (if a = 0 then 1 else 0) + ln (1 / 10 ^ 10 + 1 / 2) * (if a = 1 then 1 else 0))
               + (ln (1 / 10 ^ 10 + 1 / 2) * (if b = 0 then 1 else 0) + ln (1 / 10 ^ 10 + 1 / 2) * (if b = 1 then 1 else 0)))]"
  by (simp add: example_vmc_def logpsi_def VariationalMonteCarlo_def vmc_buildlattice_eq Let_def py_slice_to_def
      one_hot_def dense_def softmax_def broadcast2_def upt2)

lemma example_fields: "self_N example_vmc = 2" "self_Omega example_vmc = 1" "self_delta example_vmc = 1"
  "self_V example_vmc = 7" "self_Lx example_vmc = 2" "self_Ly example_vmc = 1"
  by (simp_all add: example_vmc_def VariationalMonteCarlo_def vmc_buildlattice_eq)

lemma example_local_energy: "local_energy_value example_vmc [0, 1] = - 2"
  by (simp add: local_energy_value_def diagonal_energy_def log_amplitude_def example_logpsi flip_def upt2
     bond_sum_def vmc_buildlattice_eq nn_bonds_def nnn_bonds_def nnnn_bonds_def py_range_def example_fields)

section \<open>The local energy of a sample\<close>

text \<open>
  Claim C1. For a batch of samples with entries in \<open>{0,1}\<close> (rows of \<open>N\<close> entries) and
  the vector of their log-amplitudes, \<^verbatim>\<open>localenergy\<close> returns for each sample \<open>s\<close> the value
  \<open>(-delta) * sum_j s_j + V * sum_nn s_i s_j + (V/8) * sum_nnn s_i s_j + (V/64) * sum_nnnn s_i s_j
  - 0.5 * Omega * sum_j exp (logpsi (flip_j s) - logpsi s)\<close>, the bond lists being those
  built by \<^verbatim>\<open>buildlattice\<close>; this is \<^const>\<open>local_energy_value\<close>. The array of samples is the
  one stored at address \<open>a\<close>.
\<close>

theorem localenergy_value:
  assumes vm: "vm = VariationalMonteCarlo Lx Ly V Omega delta nh cell affine"
    and a: "a < length h"
    and rows: "\<forall>s \<in> set (h ! a). int (length s) = self_N vm \<and> set s \<subseteq> {0, 1}"
    and lp: "logpsi vm (h ! a) = Inr lp"
  shows "snd (localenergy vm h a lp) = Inr (map (local_energy_value vm) (h ! a))"
proof -
  let ?smp = "h ! a"
  have len: "\<And>s. s \<in> set ?smp \<Longrightarrow> int (length s) = self_N vm" using rows by simp
  have "logpsi vm ?smp = Inr (map (log_amplitude vm) ?smp)"
    by (rule logpsi_wellshaped) (rule len)
  with lp have lp': "lp = map (log_amplitude vm) ?smp" by simp
  have d: "localenergy_diagonal vm ?smp = Inr (map (diagonal_energy vm) ?smp)"
    using rows by (intro localenergy_diagonal_rows[OF vm]) simp
  have "snd (localenergy vm h a lp)
      = Inr (map (\<lambda>s. diagonal_energy vm s + (\<Sum>j\<leftarrow>py_range (self_N vm). - 0.5 * self_Omega vm *
              exp (log_amplitude vm (s[nat j := int64 (1 - s ! nat j)]) - log_amplitude vm s))) ?smp)"
    unfolding localenergy_def d sum.case lp'
    by (rule offdiagonal_rows) (use len a in \<open>auto simp: set_py_range\<close>)
  also have "map (\<lambda>s. diagonal_energy vm s + (\<Sum>j\<leftarrow>py_range (self_N vm). - 0.5 * self_Omega vm *
              exp (log_amplitude vm (s[nat j := int64 (1 - s ! nat j)]) - log_amplitude vm s))) ?smp
      = map (local_energy_value vm) ?smp"
  proof (rule map_cong)
    fix s assume "s \<in> set ?smp"
    with rows have "int (length s) = self_N vm" "set s \<subseteq> {0, 1}" by auto
    then show "diagonal_energy vm s + (\<Sum>j\<leftarrow>py_range (self_N vm). - 0.5 * self_Omega vm *
              exp (log_amplitude vm (s[nat j := int64 (1 - s ! nat j)]) - log_amplitude vm s))
       = local_energy_value vm s"
      by (rule local_energy_value_sum)
  qed (rule refl)
  finally show ?thesis .
qed

theorem localenergy_value_witness:
  "logpsi example_vmc [[0, 1]] = Inr [ln (1 / 10 ^ 10 + 1 / 2)] \<and>
   snd (localenergy example_vmc [[[0, 1]]] 0 [ln (1 / 10 ^ 10 + 1 / 2)]) = Inr [- 2]"
proof -
  have lp: "logpsi example_vmc ([[[0, 1]]] ! 0) = Inr [ln (1 / 10 ^ 10 + 1 / 2)]"
    by (simp add: example_logpsi)
  have rows: "\<forall>s \<in> set ([[[0, 1]]] ! 0). int (length s) = self_N example_vmc \<and> set s \<subseteq> {0, 1}"
    by (simp add: example_fields)
  have "snd (localenergy example_vmc [[[0, 1]]] 0 [ln (1 / 10 ^ 10 + 1 / 2)])
      = Inr (map (local_energy_value example_vmc) ([[[0, 1]]] ! 0))"
    using localenergy_value[OF example_vmc_def _ rows lp] by simp
  then show ?thesis using lp by (simp add: example_local_energy)
qed

section \<open>The samples are left unchanged\<close>

text \<open>
  Claim C9. \<^verbatim>\<open>localenergy\<close> leaves its input array of samples unchanged: the spin flips
  are written into a fresh copy, so the array at the address of \<^verbatim>\<open>samples\<close> is the same
  after the call as before it, whether the call returns or raises.
\<close>

theorem localenergy_leaves_samples:
  assumes "a < length h"
  shows "a < length (fst (localenergy vm h a lp)) \<and> fst (localenergy vm h a lp) ! a = h ! a"
proof -
  have t: "take (length h) (fst (localenergy vm h a lp)) = h"
    by (simp add: localenergy_def offdiagonal_frame split: sum.splits)
  then have "length h \<le> length (fst (localenergy vm h a lp))"
    by (metis length_take min.cobounded1 min.cobounded2)
  moreover have "fst (localenergy vm h a lp) ! a = take (length h) (fst (localenergy vm h a lp)) ! a"
    using assms by simp
  ultimately show ?thesis using assms t by simp
qed

theorem localenergy_leaves_samples_witness:
  "(0::nat) < length [[[0, 1 :: int]]] \<and>
   fst (localenergy example_vmc [[[0, 1]]] 0 [ln (1 / 10 ^ 10 + 1 / 2)]) ! 0 = [[0, 1]]"
  using localenergy_leaves_samples[of 0 "[[[0, 1]]]" example_vmc "[ln (1 / 10 ^ 10 + 1 / 2)]"]
  by simp

section \<open>Lemmas on the tomography Hamiltonian\<close>

lemma matrix_element_foldl_sum:
  "matrix_element (foldl (\<lambda>H x. OpSum H (f x)) H0 xs) s t
     = matrix_element H0 s t + (\<Sum>x\<leftarrow>xs. matrix_element (f x) s t)"
  by (induction xs arbitrary: H0) (simp_all add: add.assoc)

lemma agree_self: "list_all (\<lambda>p. int p \<in> set sites \<or> s ! p = s ! p) [0..<length s]"
  by (simp add: list_all_iff)

lemma bit_cases: "x \<in> {0, 1::int} \<Longrightarrow> (x = 0 \<Longrightarrow> P) \<Longrightarrow> (x = 1 \<Longrightarrow> P) \<Longrightarrow> P"
  by auto

lemma sx_diagonal:
  assumes "s ! nat j \<in> {0, 1}"
  shows "matrix_element (LocalOperator hilbert (scale c [[0, 1], [1, 0]]) [j]) s s = (0::real)"
  using assms by (auto simp: site_index_def scale_def list_all_iff)

lemma P_diagonal:
  assumes "s ! nat j \<in> {0, 1}"
  shows "matrix_element (LocalOperator hilbert (scale c [[0, 0], [0, 1]]) [j]) s s = c * real_of_int (s ! nat j)"
  using assms by (auto simp: site_index_def scale_def list_all_iff)

lemma PP_diagonal:
  assumes "s ! nat a \<in> {0, 1}" "s ! nat b \<in> {0, 1}"
  shows "matrix_element (LocalOperator hilbert (scale c (kron [[0, 0], [0, 1]] [[0, 0], [0, 1]])) [a, b]) s s
       = c * real_of_int (s ! nat a * s ! nat b)"
  using assms by (auto simp: site_index_def scale_def kron_def list_all_iff)


lemma sum_list_zero_real: "(\<And>x. x \<in> set xs \<Longrightarrow> f x = (0::real)) \<Longrightarrow> (\<Sum>x\<leftarrow>xs. f x) = 0"
  by (induction xs) simp_all

lemma generatehamiltonian_diagonal:
  assumes l: "int (length s) = Lx * Ly" and s: "set s \<subseteq> {0, 1}"
    and vm: "vm = VariationalMonteCarlo Lx Ly V Omega delta nh cell affine"
  shows "matrix_element (generatehamiltonian hilbert Lx Ly V Omega delta) s s = diagonal_energy vm s"
proof -
  note f = vmc_fields[OF vm]
  have bit: "s ! nat j \<in> {0, 1}" if "0 \<le> j" "j < Lx * Ly" for j
  proof -
    from that l have "nat j < length s" by linarith
    then show ?thesis using s nth_mem by blast
  qed
  have bond: "s ! nat (fst b) \<in> {0, 1} \<and> s ! nat (snd b) \<in> {0, 1}" if "in_lattice Lx Ly b" for b
    using in_lattice_bounds[OF that] bit by blast
  have sx: "(\<Sum>j\<leftarrow>py_range (Lx * Ly).
        matrix_element (LocalOperator hilbert (scale (- 0.5 * Omega) [[0, 1], [1, 0]]) [j]) s s) = 0"
  proof (rule sum_list_zero_real)
    fix j assume "j \<in> set (py_range (Lx * Ly))"
    then have "0 \<le> j" "j < Lx * Ly" by (auto simp: set_py_range)
    then show "matrix_element (LocalOperator hilbert (scale (- 0.5 * Omega) [[0, 1], [1, 0]]) [j]) s s = 0"
      by (intro sx_diagonal bit)
  qed
  have P: "(\<Sum>j\<leftarrow>py_range (Lx * Ly).
        matrix_element (LocalOperator hilbert (scale (- delta) [[0, 0], [0, 1]]) [j]) s s)
      = (- delta) * (\<Sum>j\<leftarrow>[0..<nat (Lx * Ly)]. real_of_int (s ! j))"
  proof -
    have "map (\<lambda>j. matrix_element (LocalOperator hilbert (scale (- delta) [[0, 0], [0, 1]]) [j]) s s) (py_range (Lx * Ly))
        = map (\<lambda>j. (- delta) * real_of_int (s ! nat j)) (py_range (Lx * Ly))"
    proof (rule map_cong)
      fix j assume "j \<in> set (py_range (Lx * Ly))"
      then have "0 \<le> j" "j < Lx * Ly" by (auto simp: set_py_range)
      then show "matrix_element (LocalOperator hilbert (scale (- delta) [[0, 0], [0, 1]]) [j]) s s
          = (- delta) * real_of_int (s ! nat j)"
        by (intro P_diagonal bit)
    qed (rule refl)
    then have "(\<Sum>j\<leftarrow>py_range (Lx * Ly).
        matrix_element (LocalOperator hilbert (scale (- delta) [[0, 0], [0, 1]]) [j]) s s)
        = (\<Sum>j\<leftarrow>py_range (Lx * Ly). (- delta) * real_of_int (s ! nat j))"
      by (rule arg_cong)
    also have "\<dots> = (- delta) * (\<Sum>j\<leftarrow>[0..<nat (Lx * Ly)]. real_of_int (s ! j))"
      by (simp add: py_range_def comp_def sum_list_neg_mult)
    finally show ?thesis .
  qed
  have PP: "(\<Sum>b\<leftarrow>bonds. matrix_element (LocalOperator hilbert
          (scale c (kron [[0, 0], [0, 1]] [[0, 0], [0, 1]])) [fst b, snd b]) s s) = c * bond_sum bonds s"
    if "\<And>b. b \<in> set bonds \<Longrightarrow> in_lattice Lx Ly b" for bonds c
  proof -
    have "map (\<lambda>b. matrix_element (LocalOperator hilbert
          (scale c (kron [[0, 0], [0, 1]] [[0, 0], [0, 1]])) [fst b, snd b]) s s) bonds
        = map (\<lambda>b. c * real_of_int (s ! nat (fst b) * s ! nat (snd b))) bonds"
    proof (rule map_cong)
      fix b assume "b \<in> set bonds"
      then have "s ! nat (fst b) \<in> {0, 1}" "s ! nat (snd b) \<in> {0, 1}"
        using that bond by blast+
      then show "matrix_element (LocalOperator hilbert
          (scale c (kron [[0, 0], [0, 1]] [[0, 0], [0, 1]])) [fst b, snd b]) s s
          = c * real_of_int (s ! nat (fst b) * s ! nat (snd b))"
        by (rule PP_diagonal)
    qed (rule refl)
    then show ?thesis
      unfolding bond_sum_def by (simp only: sum_list_const_mult)
  qed
  have PP1: "(\<Sum>b\<leftarrow>nn_bonds Lx Ly. matrix_element (LocalOperator hilbert
          (scale V (kron [[0, 0], [0, 1]] [[0, 0], [0, 1]])) [fst b, snd b]) s s) = V * bond_sum (nn_bonds Lx Ly) s"
    by (rule PP) (rule nn_bonds_in_lattice)
  have PP2: "(\<Sum>b\<leftarrow>nnn_bonds Lx Ly. matrix_element (LocalOperator hilbert
          (scale (V / 8.0) (kron [[0, 0], [0, 1]] [[0, 0], [0, 1]])) [fst b, snd b]) s s) = (V / 8.0) * bond_sum (nnn_bonds Lx Ly) s"
    by (rule PP) (rule nnn_bonds_in_lattice)
  have PP3: "(\<Sum>b\<leftarrow>nnnn_bonds Lx Ly. matrix_element (LocalOperator hilbert
          (scale (V / 64.0) (kron [[0, 0], [0, 1]] [[0, 0], [0, 1]])) [fst b, snd b]) s s) = (V / 64.0) * bond_sum (nnnn_bonds Lx Ly) s"
    by (rule PP) (rule nnnn_bonds_in_lattice)
  have "matrix_element (generatehamiltonian hilbert Lx Ly V Omega delta) s s
      = ((((0 + 0) + (- delta) * (\<Sum>j\<leftarrow>[0..<nat (Lx * Ly)]. real_of_int (s ! j)))
          + V * bond_sum (nn_bonds Lx Ly) s) + (V / 8.0) * bond_sum (nnn_bonds Lx Ly) s)
          + (V / 64.0) * bond_sum (nnnn_bonds Lx Ly) s"
    unfolding generatehamiltonian_def buildlattice_eq Let_def prod.case matrix_element_foldl_sum
      sx P PP1 PP2 PP3
    by simp
  then show ?thesis
    by (simp add: diagonal_energy_def f vmc_buildlattice_eq)
qed

lemma upt4: "[0..<4] = [0, 1, 2, 3]" by (simp add: upt_rec)

section \<open>The two notebooks encode the same Hamiltonian\<close>

text \<open>
  Claim C5. For the same \<open>Lx\<close>, \<open>Ly\<close>, \<open>V\<close>, \<open>Omega\<close>, \<open>delta\<close>: the bond lists of
  \<^verbatim>\<open>buildlattice\<close> in the tomography notebook equal those of
  \<^verbatim>\<open>VariationalMonteCarlo.buildlattice\<close>, and on every occupation configuration the diagonal
  matrix element of \<^verbatim>\<open>generatehamiltonian\<close> coincides with the diagonal part of
  \<^verbatim>\<open>localenergy\<close>.
\<close>

theorem rydberg_hamiltonians_agree:
  assumes "\<forall>s \<in> set smp. int (length s) = Lx * Ly \<and> set s \<subseteq> {0, 1}"
  shows "buildlattice Lx Ly = vmc_buildlattice Lx Ly \<and>
         localenergy_diagonal (VariationalMonteCarlo Lx Ly V Omega delta nh cell affine) smp
           = Inr (map (\<lambda>s. matrix_element (generatehamiltonian hilbert Lx Ly V Omega delta) s s) smp)"
proof -
  let ?vm = "VariationalMonteCarlo Lx Ly V Omega delta nh cell affine"
  have N: "self_N ?vm = Lx * Ly" by (rule vmc_fields(1)[OF refl])
  have "localenergy_diagonal ?vm smp = Inr (map (diagonal_energy ?vm) smp)"
    using assms by (intro localenergy_diagonal_rows[OF refl]) (simp add: N)
  also have "map (diagonal_energy ?vm) smp
      = map (\<lambda>s. matrix_element (generatehamiltonian hilbert Lx Ly V Omega delta) s s) smp"
  proof (rule map_cong)
    fix s assume "s \<in> set smp"
    with assms have "int (length s) = Lx * Ly" "set s \<subseteq> {0, 1}" by auto
    then show "diagonal_energy ?vm s = matrix_element (generatehamiltonian hilbert Lx Ly V Omega delta) s s"
      by (rule generatehamiltonian_diagonal[OF _ _ refl, symmetric])
  qed (rule refl)
  finally show ?thesis
    by (simp add: buildlattice_eq vmc_buildlattice_eq)
qed

theorem rydberg_hamiltonians_agree_witness:
  "buildlattice 2 2 = vmc_buildlattice 2 2 \<and>
   localenergy_diagonal (VariationalMonteCarlo 2 2 7 1 1 1 (\<lambda>x h. h) (\<lambda>h k. 0)) [[1, 1, 0, 1]]
     = Inr [matrix_element (generatehamiltonian 4 2 2 7 1 1) [1, 1, 0, 1] [1, 1, 0, 1]] \<and>
   matrix_element (generatehamiltonian 4 2 2 7 1 1) [1, 1, 0, 1] [1, 1, 0, 1] = 95 / 8"
proof -
  have "matrix_element (generatehamiltonian 4 2 2 7 1 1) [1, 1, 0, 1] [1, 1, 0, 1] = 95 / 8"
    by (simp add: generatehamiltonian_def buildlattice_eq nn_bonds_def nnn_bonds_def nnnn_bonds_def
        py_range_def upt4 upt2 kron_def scale_def site_index_def)
  then show ?thesis
    using rydberg_hamiltonians_agree[of "[[1, 1, 0, 1]]" 2 2 7 1 1 1 "\<lambda>x h. h" "\<lambda>h k. 0" 4]
    by simp
qed

section \<open>Lemmas on sampling\<close>

lemma sample_step_rows:
  assumes b: "batch_rows ns R st"
    and s: "if j = 0 then \<forall>i. snd (snd (snd (R i))) = []
            else st_samples st = Some (map (\<lambda>i. snd (snd (snd (R i)))) [0..<ns])"
  shows "batch_rows ns (\<lambda>i. sample_row_step vm (\<lambda>k. categorical k i) (R i) (nat j))
            (sample_step vm categorical ns st j)"
    and "st_samples (sample_step vm categorical ns st j)
       = Some (map (\<lambda>i. snd (snd (snd (sample_row_step vm (\<lambda>k. categorical k i) (R i) (nat j))))) [0..<ns])"
proof -
  let ?lp = "\<lambda>i. map (\<lambda>q. ln (1 / 10 ^ 10 + q))
                 (concat (map (dense vm) (fst (rnn (rnn_cell vm) (fst (R i)) (fst (snd (R i)))))))"
  have run: "map2 (rnn (rnn_cell vm)) (st_inputs st) (st_hidden_state st)
      = map (\<lambda>i. rnn (rnn_cell vm) (fst (R i)) (fst (snd (R i)))) [0..<ns]"
    using b by (simp add: batch_rows_def map2_map_map)
  have lps: "map (\<lambda>p. map (\<lambda>q. ln (1 / 10 ^ 10 + q)) (concat p))
           (map (map (dense vm)) (map fst (map2 (rnn (rnn_cell vm)) (st_inputs st) (st_hidden_state st))))
      = map ?lp [0..<ns]"
    by (simp add: run comp_def)
  have draw: "map (\<lambda>i. [categorical (nat j) i (map ?lp [0..<ns] ! i)]) [0..<ns]
      = map (\<lambda>i. [categorical (nat j) i (?lp i)]) [0..<ns]"
    by (rule map_cong) simp_all
  show "batch_rows ns (\<lambda>i. sample_row_step vm (\<lambda>k. categorical k i) (R i) (nat j))
            (sample_step vm categorical ns st j)"
    using b
    unfolding sample_step_def Let_def lps draw
    by (simp add: batch_rows_def run map2_map_map sample_row_step_def case_prod_beta Let_def comp_def)
  show "st_samples (sample_step vm categorical ns st j)
       = Some (map (\<lambda>i. snd (snd (snd (sample_row_step vm (\<lambda>k. categorical k i) (R i) (nat j))))) [0..<ns])"
    using s
    unfolding sample_step_def Let_def lps draw
    by (simp add: map2_map_map sample_row_step_def case_prod_beta Let_def comp_def)
qed


lemma py_range_Suc: "py_range (int (Suc n)) = py_range (int n) @ [int n]"
  by (simp only: py_range_def nat_int) simp

lemma sample_loop_rows:
  fixes vm categorical ns
  defines "R \<equiv> \<lambda>n i. foldl (sample_row_step vm (\<lambda>k. categorical k i)) (row_start vm) [0..<n]"
    and "S \<equiv> \<lambda>n. foldl (sample_step vm categorical ns) (sample_start vm ns) (py_range (int n))"
  shows "batch_rows ns (R n) (S n) \<and>
         (if n = 0 then st_samples (S n) = None \<and> (\<forall>i. snd (snd (snd (R n i))) = [])
          else st_samples (S n) = Some (map (\<lambda>i. snd (snd (snd (R n i)))) [0..<ns]))"
proof (induction n)
  case 0
  show ?case
    by (simp add: R_def S_def py_range_def batch_rows_def sample_start_def row_start_def map_replicate_const)
next
  case (Suc n)
  have S: "S (Suc n) = sample_step vm categorical ns (S n) (int n)"
    by (simp only: S_def py_range_Suc foldl_append foldl_Cons foldl_Nil)
  have R: "R (Suc n) = (\<lambda>i. sample_row_step vm (\<lambda>k. categorical k i) (R n i) (nat (int n)))"
    by (simp add: R_def)
  from Suc.IH have b: "batch_rows ns (R n) (S n)"
    and s: "if int n = 0 then \<forall>i. snd (snd (snd (R n i))) = []
            else st_samples (S n) = Some (map (\<lambda>i. snd (snd (snd (R n i)))) [0..<ns])"
    by (simp_all split: if_splits)
  show ?case
    unfolding S R using sample_step_rows[OF b s] by simp
qed

lemma rnn_single: "rnn cell [x] h = ([cell x h], cell x h)"
  by (simp add: Let_def)

lemma sample_row_fold:
  "\<exists>vs x' h'. length vs = m \<and>
     foldl (sample_row_step vm draw) ([x], h, l, s) [j..<j + m]
       = ([x'], h', l + sequence_log_prob vm x h vs, s @ vs)"
proof (induction m arbitrary: j x h l s)
  case 0
  show ?case by simp
next
  case (Suc m)
  let ?h = "rnn_cell vm x h"
  let ?lp = "map (\<lambda>q. ln (1 / 10 ^ 10 + q)) (dense vm ?h)"
  let ?v = "draw j ?lp"
  have step: "sample_row_step vm draw ([x], h, l, s) j
      = ([one_hot (self_K vm) ?v], ?h, l + sum_list (map2 (*) ?lp (one_hot (self_K vm) ?v)), s @ [?v])"
    by (simp add: sample_row_step_def Let_def)
  have upt: "[j..<j + Suc m] = j # [Suc j..<Suc j + m]"
    by (simp add: upt_conv_Cons)
  from Suc.IH[where j = "Suc j" and x = "one_hot (self_K vm) ?v" and h = ?h
      and l = "l + sum_list (map2 (*) ?lp (one_hot (self_K vm) ?v))" and s = "s @ [?v]"]
  obtain vs x' h' where vs: "length vs = m"
    and f: "foldl (sample_row_step vm draw)
        ([one_hot (self_K vm) ?v], ?h, l + sum_list (map2 (*) ?lp (one_hot (self_K vm) ?v)), s @ [?v])
        [Suc j..<Suc j + m]
      = ([x'], h', l + sum_list (map2 (*) ?lp (one_hot (self_K vm) ?v))
            + sequence_log_prob vm (one_hot (self_K vm) ?v) ?h vs, (s @ [?v]) @ vs)"
    by blast
  have "foldl (sample_row_step vm draw) ([x], h, l, s) [j..<j + Suc m]
      = ([x'], h', l + sequence_log_prob vm x h (?v # vs), s @ (?v # vs))"
    unfolding upt foldl_Cons step f by (simp add: Let_def)
  moreover have "length (?v # vs) = Suc m" using vs by simp
  ultimately show ?case by blast
qed


lemma rnn_fst_Cons:
  "fst (rnn cell (x # xs) h) = cell x h # fst (rnn cell xs (cell x h))"
  by (simp add: Let_def case_prod_beta)

lemma weighted_sum_sequence:
  "vs \<noteq> [] \<Longrightarrow>
   sum_list (map sum_list (map2 (map2 (*))
       (map (map (\<lambda>q. ln (1 / 10 ^ 10 + q)))
          (map (dense vm) (fst (rnn (rnn_cell vm) (x # map (one_hot (self_K vm)) (butlast vs)) h))))
       (map (one_hot (self_K vm)) vs)))
   = sequence_log_prob vm x h vs"
proof (induction vs arbitrary: x h)
  case Nil
  then show ?case by simp
next
  case (Cons v vs)
  show ?case
  proof (cases "vs = []")
    case True
    then show ?thesis by (simp add: Let_def rnn_fst_Cons del: rnn.simps)
  next
    case False
    from Cons.IH[OF False, of "one_hot (self_K vm) v" "rnn_cell vm x h"] False
    show ?thesis by (simp add: Let_def rnn_fst_Cons del: rnn.simps)
  qed
qed

lemma log_amplitude_sequence:
  assumes l: "int (length s) = self_N vm" and N: "1 \<le> self_N vm"
  shows "log_amplitude vm s
     = 0.5 * sequence_log_prob vm (replicate (self_K vm) 0) (replicate (self_nh vm) 0) s"
proof -
  from l N have ne: "s \<noteq> []" by auto
  have sl: "py_slice_to s (self_N vm - 1) = butlast s"
    using l N by (simp add: py_slice_to_def butlast_conv_take nat_diff_distrib flip: l)
  have len: "length (fst (rnn (rnn_cell vm)
        (replicate (self_K vm) 0 # map (one_hot (self_K vm)) (butlast s)) (replicate (self_nh vm) 0)))
      = length s"
    using ne by (simp only: length_rnn) simp
  have w: "logpsi_weighted vm s = Inr (map2 (map2 (*))
       (map (map (\<lambda>q. ln (1 / 10 ^ 10 + q)))
          (map (dense vm) (fst (rnn (rnn_cell vm)
              (replicate (self_K vm) 0 # map (one_hot (self_K vm)) (butlast s)) (replicate (self_nh vm) 0)))))
       (map (one_hot (self_K vm)) s))"
    unfolding logpsi_weighted_def sl append_Cons append_Nil
    by (rule broadcast2_same) (simp only: length_map len)
  show ?thesis
    unfolding log_amplitude_def logpsi_rowwise list.map collect.simps w sum.case list.sel
      weighted_sum_sequence[OF ne]
    by (rule refl)
qed

lemma example_sample:
  "sample example_vmc (\<lambda>j i lp. int j) 1
     = Inr ([[0, 1]], [ln (1 / 10 ^ 10 + 1 / 2) + ln (1 / 10 ^ 10 + 1 / 2)])"
  by (simp add: sample_def sample_step_def py_range_def upt2 example_vmc_def VariationalMonteCarlo_def
      vmc_buildlattice_eq Let_def dense_def softmax_def one_hot_def)

section \<open>The amplitude of a sampled configuration\<close>

text \<open>
  Claim C2. For every number of samples and every fixed setting of the network
  parameters, if \<^verbatim>\<open>sample(nsamples)\<close> returns \<open>(samples, logP)\<close> then \<^verbatim>\<open>logpsi(samples)\<close>
  equals \<open>0.5 * logP\<close> elementwise, real arithmetic being exact. The outcomes of
  \<^verbatim>\<open>tf.random.categorical\<close> are arbitrary.
\<close>

theorem logpsi_of_sample:
  assumes "sample vm categorical nsamples = Inr (smp, lP)"
  shows "logpsi vm smp = Inr (map (\<lambda>l. 0.5 * l) lP)"
proof -
  define n where "n = nat (self_N vm)"
  define R where "R = (\<lambda>i. foldl (sample_row_step vm (\<lambda>k. categorical k i)) (row_start vm) [0..<n])"
  define S where "S = foldl (sample_step vm categorical nsamples) (sample_start vm nsamples) (py_range (int n))"
  have pr: "py_range (self_N vm) = py_range (int n)"
    by (simp add: py_range_def n_def)
  have smp: "sample vm categorical nsamples
      = (case st_samples S of None \<Rightarrow> Inl UnboundLocalError | Some x \<Rightarrow> Inr (x, st_logP S))"
    unfolding sample_def Let_def S_def pr sample_start_def by (rule refl)
  from sample_loop_rows[of nsamples vm categorical n]
  have b: "batch_rows nsamples R S"
    and s: "if n = 0 then st_samples S = None
            else st_samples S = Some (map (\<lambda>i. snd (snd (snd (R i)))) [0..<nsamples])"
    by (simp_all add: R_def S_def split: if_splits)
  from assms smp s have n: "n \<noteq> 0" by (auto split: if_splits)
  then have N: "1 \<le> self_N vm" "int n = self_N vm" by (simp_all add: n_def)
  from assms smp s n b have smp_eq: "smp = map (\<lambda>i. snd (snd (snd (R i)))) [0..<nsamples]"
    and lP_eq: "lP = map (\<lambda>i. fst (snd (snd (R i)))) [0..<nsamples]"
    by (simp_all add: batch_rows_def)
  have row: "int (length (snd (snd (snd (R i))))) = self_N vm \<and>
      fst (snd (snd (R i)))
        = sequence_log_prob vm (replicate (self_K vm) 0) (replicate (self_nh vm) 0) (snd (snd (snd (R i))))" for i
  proof -
    from sample_row_fold[of n vm "\<lambda>k. categorical k i" "replicate (self_K vm) 0"
        "replicate (self_nh vm) 0" 0 "[]" 0]
    obtain vs x' h' where "length vs = n"
      and "R i = ([x'], h', 0 + sequence_log_prob vm (replicate (self_K vm) 0) (replicate (self_nh vm) 0) vs, [] @ vs)"
      unfolding R_def row_start_def by auto
    then show ?thesis using N by simp
  qed
  have "logpsi vm smp = Inr (map (log_amplitude vm) smp)"
    by (rule logpsi_wellshaped) (auto simp: smp_eq row)
  also have "map (log_amplitude vm) smp = map (\<lambda>l. 0.5 * l) lP"
    unfolding smp_eq lP_eq map_map comp_def
    by (rule map_cong) (simp_all add: log_amplitude_sequence[OF _ N(1)] row)
  finally show ?thesis .
qed


theorem logpsi_of_sample_witness:
  "sample example_vmc (\<lambda>j i lp. int j) 1
     = Inr ([[0, 1]], [ln (1 / 10 ^ 10 + 1 / 2) + ln (1 / 10 ^ 10 + 1 / 2)]) \<and>
   logpsi example_vmc [[0, 1]] = Inr [0.5 * (ln (1 / 10 ^ 10 + 1 / 2) + ln (1 / 10 ^ 10 + 1 / 2))]"
  using logpsi_of_sample[OF example_sample] example_sample by simp

section \<open>Lemmas on Kronecker products and Pauli strings\<close>

lemma times_assoc_fun:
  fixes a x :: "'a::semigroup_mult"
  shows "(*) (a * x) = (\<lambda>c. a * (x * c))"
  by (simp add: fun_eq_iff mult.assoc)

lemma kron_row_assoc:
  fixes ra rb rc :: "'a::semigroup_mult list"
  shows "concat (map (\<lambda>x. map (\<lambda>c. x * c) rc) (concat (map (\<lambda>a. map (\<lambda>b. a * b) rb) ra)))
       = concat (map (\<lambda>a. map (\<lambda>y. a * y) (concat (map (\<lambda>b. map (\<lambda>c. b * c) rc) rb))) ra)"
  by (induction ra) (simp_all add: map_concat comp_def times_assoc_fun)

lemma kron_Nil [simp]: "kron [] B = []"
  by (simp add: kron_def)

lemma kron_Cons:
  "kron (ra # A) B = map (\<lambda>rb. concat (map (\<lambda>a. map (\<lambda>b. a * b) rb) ra)) B @ kron A B"
  by (simp add: kron_def)

lemma kron_append: "kron (A @ A') B = kron A B @ kron A' B"
  by (simp add: kron_def)

lemma kron_assoc:
  fixes A B C :: "'a::semigroup_mult matrix"
  shows "kron (kron A B) C = kron A (kron B C)"
proof (induction A)
  case Nil
  show ?case by simp
next
  case (Cons ra A)
  have "kron (map (\<lambda>rb. concat (map (\<lambda>a. map (\<lambda>b. a * b) rb) ra)) B) C
      = map (\<lambda>r. concat (map (\<lambda>a. map (\<lambda>y. a * y) r) ra)) (kron B C)"
    by (induction B) (simp_all add: kron_Cons kron_row_assoc comp_def)
  then show ?case
    by (simp add: kron_Cons kron_append Cons.IH)
qed

lemma kron_one:
  fixes A :: "'a::monoid_mult matrix"
  shows "kron A [[1]] = A"
proof -
  have "concat (map (\<lambda>a. [a * 1]) ra) = ra" for ra :: "'a list"
    by (induction ra) simp_all
  then show ?thesis by (induction A) (simp_all add: kron_Cons)
qed

lemma foldl_kron_product:
  fixes M :: "'a::monoid_mult matrix"
  shows "foldl kron M ms = kron_product (M # ms)"
proof (induction ms arbitrary: M)
  case Nil
  show ?case by (simp add: kron_product_def kron_one)
next
  case (Cons m ms)
  then show ?case by (simp add: kron_product_def kron_assoc)
qed

lemma reduce_kron:
  fixes ms :: "'a::monoid_mult matrix list"
  shows "ms \<noteq> [] \<Longrightarrow> reduce kron ms = Inr (kron_product ms)"
  by (cases ms) (simp_all add: reduce_def foldl_kron_product)

lemma length_kron_row:
  "length (concat (map (\<lambda>a. map (\<lambda>b. a * b) rb) ra)) = length ra * length rb"
  by (induction ra) simp_all

lemma square_kron:
  assumes "square_matrix a A" and "square_matrix b B"
  shows "square_matrix (a * b) (kron A B)"
proof -
  have len: "length (kron A' B) = length A' * length B" for A' :: "'a matrix"
    by (induction A') (simp_all add: kron_Cons)
  have rows: "\<forall>r \<in> set (kron A' B). length r = a * b"
    if "\<forall>r \<in> set A'. length r = a" for A' :: "'a matrix"
    using that assms(2)
    by (induction A') (auto simp: kron_Cons length_kron_row square_matrix_def list_all_iff)
  show ?thesis
    using assms len[of A] rows[of A] by (simp add: square_matrix_def list_all_iff)
qed

lemma square_pauli_matrix: "square_matrix 2 (pauli_matrix c)"
  by (simp add: square_matrix_def pauli_matrix_def pauli_I_def pauli_X_def pauli_Y_def pauli_Z_def)

lemma square_kron_product:
  assumes "\<forall>m \<in> set ms. square_matrix 2 m"
  shows "square_matrix (2 ^ length ms) (kron_product ms)"
  using assms
proof (induction ms)
  case Nil
  show ?case by (simp add: kron_product_def square_matrix_def)
next
  case (Cons m ms)
  then have "square_matrix (2 * 2 ^ length ms) (kron m (kron_product ms))"
    by (intro square_kron) simp_all
  then show ?case by (simp add: kron_product_def)
qed


lemma map_nth_py_range: "map (\<lambda>k. f (xs ! nat k)) (py_range (int (length xs))) = map f xs"
proof -
  have "map (\<lambda>k. f (xs ! nat k)) (py_range (int (length xs))) = map f (map (\<lambda>k. xs ! k) [0..<length xs])"
    by (simp add: py_range_def comp_def)
  then show ?thesis by (simp only: map_nth)
qed

lemma operatorfromstring_reduce:
  "operatorfromstring s = reduce kron (map pauli_matrix s)"
proof -
  have "(\<lambda>op_list k.
            if s ! nat k = CHR ''X'' then op_list @ [pauli_X]
            else if s ! nat k = CHR ''Y'' then op_list @ [pauli_Y]
            else if s ! nat k = CHR ''Z'' then op_list @ [pauli_Z]
            else op_list @ [pauli_I])
      = (\<lambda>op_list k. op_list @ [pauli_matrix (s ! nat k)])"
    by (auto simp: fun_eq_iff pauli_matrix_def)
  then show ?thesis
    by (simp add: operatorfromstring_def foldl_append_one map_nth_py_range)
qed

lemma operatorfromstring_product:
  "s \<noteq> [] \<Longrightarrow> operatorfromstring s = Inr (kron_product (map pauli_matrix s))"
  by (simp add: operatorfromstring_reduce reduce_kron)

lemma square_operator: "square_matrix (2 ^ length s) (kron_product (map pauli_matrix s))"
  using square_kron_product[of "map pauli_matrix s"] by (simp add: square_pauli_matrix)

lemma square_scale: "square_matrix n M \<Longrightarrow> square_matrix n (scale c M)"
  by (simp add: square_matrix_def scale_def list_all_iff)

lemma scale_nth:
  "square_matrix n M \<Longrightarrow> i < n \<Longrightarrow> j < n \<Longrightarrow> scale c M ! i ! j = c * M ! i ! j"
  by (simp add: square_matrix_def scale_def list_all_iff)

lemma square_matrix_of: "square_matrix n (matrix_of n F)"
  by (simp add: square_matrix_def matrix_of_def list_all_iff)

lemma iadd_matrix_of:
  assumes "square_matrix n M"
  shows "iadd (matrix_of n F) M = Inr (matrix_of n (\<lambda>i j. F i j + M ! i ! j))"
proof (cases "n = 0")
  case True
  with assms show ?thesis by (simp add: iadd_def matrix_of_def square_matrix_def)
next
  case False
  then have ne: "matrix_of n F \<noteq> []" "M \<noteq> []" and hd1: "length (hd (matrix_of n F)) = n"
    and hd2: "length (hd M) = n"
    using assms by (auto simp: matrix_of_def square_matrix_def list_all_iff hd_map upt_conv_Cons)
  have "map (\<lambda>i. map (\<lambda>j. matrix_of n F ! i ! j + M ! (if n = 1 then 0 else i) ! (if n = 1 then 0 else j))
                              [0..<n]) [0..<n]
      = matrix_of n (\<lambda>i j. F i j + M ! i ! j)"
    unfolding matrix_of_def by (intro map_cong refl) (auto simp: matrix_of_def)
  moreover have lens: "length (matrix_of n F) = n" "length M = n"
    using assms by (simp_all add: matrix_of_def square_matrix_def)
  ultimately show ?thesis
    unfolding iadd_def Let_def
    by (simp only: lens hd1 hd2 ne if_False simp_thms if_True)
qed

lemma fold_res_matrix_sum:
  fixes F :: "nat \<Rightarrow> nat \<Rightarrow> 'a::comm_monoid_add"
  assumes "\<And>F x. x \<in> set xs \<Longrightarrow> f (matrix_of n F) x = Inr (matrix_of n (\<lambda>i j. F i j + g x i j))"
  shows "fold_res f xs (matrix_of n F) = Inr (matrix_of n (\<lambda>i j. F i j + (\<Sum>x\<leftarrow>xs. g x i j)))"
  using assms
proof (induction xs arbitrary: F)
  case Nil
  then show ?case by simp
next
  case (Cons x xs)
  have "f (matrix_of n F) x = Inr (matrix_of n (\<lambda>i j. F i j + g x i j))"
    by (rule Cons.prems) simp
  moreover have "fold_res f xs (matrix_of n (\<lambda>i j. F i j + g x i j))
      = Inr (matrix_of n (\<lambda>i j. (F i j + g x i j) + (\<Sum>x\<leftarrow>xs. g x i j)))"
    by (rule Cons.IH) (simp add: Cons.prems)
  ultimately show ?case by (simp add: add.assoc)
qed


lemma matrix_of_cong:
  "(\<And>i j. i < n \<Longrightarrow> j < n \<Longrightarrow> F i j = G i j) \<Longrightarrow> matrix_of n F = matrix_of n G"
  by (simp add: matrix_of_def)

lemma map_enumerate:
  "map (\<lambda>x. h (fst x) (snd x)) (enumerate 0 xs) = map (\<lambda>k. h k (xs ! k)) [0..<length xs]"
  by (rule nth_equalityI) (simp_all add: nth_enumerate_eq)

lemma foldl_filter_pairs:
  "foldl (\<lambda>(A, B) k. if P k then (A @ [f k], B @ [g k]) else (A, B)) (A0, B0) ks
     = (A0 @ map f (filter P ks), B0 @ map g (filter P ks))"
  by (induction ks arbitrary: A0 B0) simp_all

lemma OperatorFromString_reduce:
  "OperatorFromString s =
     (case reduce kron (map pauli_matrix (filter (\<lambda>c. c \<in> {CHR ''X'', CHR ''Y'', CHR ''Z''}) s)) of
        Inl e \<Rightarrow> Inl e
      | Inr M \<Rightarrow> Inr (map int (filter (\<lambda>k. s ! k \<in> {CHR ''X'', CHR ''Y'', CHR ''Z''}) [0..<length s]), M))"
proof -
  let ?P = "\<lambda>c. c \<in> {CHR ''X'', CHR ''Y'', CHR ''Z''}"
  have lam: "(\<lambda>(OpList, Sites) k.
            if s ! nat k = CHR ''X'' then (OpList @ [pauli_X], Sites @ [k])
            else if s ! nat k = CHR ''Y'' then (OpList @ [pauli_Y], Sites @ [k])
            else if s ! nat k = CHR ''Z'' then (OpList @ [pauli_Z], Sites @ [k])
            else (OpList, Sites))
      = (\<lambda>(OpList, Sites) k. if ?P (s ! nat k)
            then (OpList @ [pauli_matrix (s ! nat k)], Sites @ [k]) else (OpList, Sites))"
    by (auto simp: fun_eq_iff pauli_matrix_def)
  have ops: "map (\<lambda>k. pauli_matrix (s ! nat k)) (filter (\<lambda>k. ?P (s ! nat k)) (py_range (int (length s))))
      = map pauli_matrix (filter ?P s)"
  proof -
    have "map (\<lambda>k. pauli_matrix (s ! nat k)) (filter (\<lambda>k. ?P (s ! nat k)) (py_range (int (length s))))
        = map pauli_matrix (filter ?P (map (\<lambda>k. s ! k) [0..<length s]))"
      by (simp add: py_range_def filter_map comp_def)
    then show ?thesis by (simp only: map_nth)
  qed
  have sites: "filter (\<lambda>k. ?P (s ! nat k)) (py_range (int (length s)))
      = map int (filter (\<lambda>k. ?P (s ! k)) [0..<length s])"
    by (simp add: py_range_def filter_map comp_def)
  have "OperatorFromString s =
     (case reduce kron (map (\<lambda>k. pauli_matrix (s ! nat k))
              (filter (\<lambda>k. ?P (s ! nat k)) (py_range (int (length s))))) of
        Inl e \<Rightarrow> Inl e
      | Inr M \<Rightarrow> Inr (map (\<lambda>k. k) (filter (\<lambda>k. ?P (s ! nat k)) (py_range (int (length s)))), M))"
    unfolding OperatorFromString_def lam foldl_filter_pairs prod.case append_Nil
    by (rule refl)
  then show ?thesis
    by (simp only: ops list.map_ident) (simp only: sites)
qed

lemma pauli_filter:
  assumes "is_pauli_string s"
  shows "filter (\<lambda>c. c \<in> {CHR ''X'', CHR ''Y'', CHR ''Z''}) s = filter (\<lambda>c. c \<noteq> CHR ''I'') s"
    and "map int (filter (\<lambda>k. s ! k \<in> {CHR ''X'', CHR ''Y'', CHR ''Z''}) [0..<length s])
       = nonidentity_sites s"
proof -
  have "c \<in> {CHR ''X'', CHR ''Y'', CHR ''Z''} \<longleftrightarrow> c \<noteq> CHR ''I''" if "c \<in> set s" for c
    using assms that by (auto simp: is_pauli_string_def)
  then show "filter (\<lambda>c. c \<in> {CHR ''X'', CHR ''Y'', CHR ''Z''}) s = filter (\<lambda>c. c \<noteq> CHR ''I'') s"
    by (intro filter_cong refl)
  have "s ! k \<in> {CHR ''X'', CHR ''Y'', CHR ''Z''} \<longleftrightarrow> s ! k \<noteq> CHR ''I''" if "k \<in> set [0..<length s]" for k
  proof -
    from that have "s ! k \<in> set s" by simp
    with assms show ?thesis by (auto simp: is_pauli_string_def)
  qed
  then have "filter (\<lambda>k. s ! k \<in> {CHR ''X'', CHR ''Y'', CHR ''Z''}) [0..<length s]
      = filter (\<lambda>k. s ! k \<noteq> CHR ''I'') [0..<length s]"
    by (intro filter_cong refl)
  then show "map int (filter (\<lambda>k. s ! k \<in> {CHR ''X'', CHR ''Y'', CHR ''Z''}) [0..<length s])
       = nonidentity_sites s"
    by (simp add: nonidentity_sites_def)
qed

lemma length_nonidentity_sites:
  "length (nonidentity_sites s) = length (filter (\<lambda>c. c \<noteq> CHR ''I'') s)"
proof -
  have "length (filter (\<lambda>k. s ! k \<noteq> CHR ''I'') [0..<length s])
      = length (filter (\<lambda>c. c \<noteq> CHR ''I'') (map (\<lambda>k. s ! k) [0..<length s]))"
    by (simp add: filter_map comp_def)
  then show ?thesis by (simp add: nonidentity_sites_def map_nth)
qed

lemma OperatorFromString_pauli:
  assumes p: "is_pauli_string s" and x: "\<exists>c \<in> set s. c \<noteq> CHR ''I''"
  shows "OperatorFromString s
       = Inr (nonidentity_sites s, kron_product (map pauli_matrix (filter (\<lambda>c. c \<noteq> CHR ''I'') s)))"
proof -
  from x have "filter (\<lambda>c. c \<noteq> CHR ''I'') s \<noteq> []"
    by (simp add: filter_empty_conv)
  then have "reduce kron (map pauli_matrix (filter (\<lambda>c. c \<noteq> CHR ''I'') s))
      = Inr (kron_product (map pauli_matrix (filter (\<lambda>c. c \<noteq> CHR ''I'') s)))"
    by (intro reduce_kron) simp
  then show ?thesis
    unfolding OperatorFromString_reduce pauli_filter[OF p] by simp
qed

lemma pauli_flag_found:
  "pauli_flag p js = Inr flag \<Longrightarrow> flag \<noteq> 0 \<Longrightarrow> \<exists>c \<in> set p. c \<noteq> CHR ''I''"
proof (induction js)
  case Nil
  then show ?case by simp
next
  case (Cons j js)
  show ?case
  proof (cases "py_index p j")
    case (Inl e)
    with Cons.prems show ?thesis by simp
  next
    case (Inr c)
    then have "c \<in> set p"
      by (auto simp: py_index_def split: if_splits)
    with Cons Inr show ?thesis by (auto split: if_splits)
  qed
qed

lemma pauli_flag_value:
  assumes "\<And>j. j \<in> set js \<Longrightarrow> 0 \<le> j \<and> j < int (length p)"
  shows "pauli_flag p js = Inr (if \<forall>j \<in> set js. p ! nat j = CHR ''I'' then 0 else 1)"
  using assms by (induction js) (simp_all add: py_index_def)

lemma pauli_flag_string:
  assumes "int (length p) = N"
  shows "pauli_flag p (py_range N) = Inr (if list_all (\<lambda>ch. ch = CHR ''I'') p then 0 else 1)"
proof -
  have "pauli_flag p (py_range N) = Inr (if \<forall>j \<in> set (py_range N). p ! nat j = CHR ''I'' then 0 else 1)"
    using assms by (intro pauli_flag_value) (auto simp: set_py_range)
  moreover have "(\<forall>j \<in> set (py_range N). p ! nat j = CHR ''I'') \<longleftrightarrow> list_all (\<lambda>ch. ch = CHR ''I'') p"
    unfolding list_all_iff all_set_conv_all_nth[of p]
    using assms by (auto simp: py_range_def)
  ultimately show ?thesis by simp
qed


lemma fold_res_opsum:
  assumes "\<And>a x. x \<in> set xs \<Longrightarrow> f a x = Inr (OpSum a (g x))"
  shows "fold_res f xs a = Inr (foldl OpSum a (map g xs))"
  using assms by (induction xs arbitrary: a) simp_all

lemma fold_res_error:
  "fold_res f xs a = Inl e \<Longrightarrow> \<exists>x \<in> set xs. \<exists>b. f b x = Inl e"
proof (induction xs arbitrary: a)
  case Nil
  then show ?case by simp
next
  case (Cons x xs)
  then show ?case by (cases "f a x") auto
qed

lemma py_index_error: "py_index xs i = Inl e \<Longrightarrow> e = IndexError"
  by (auto simp: py_index_def split: if_splits)

lemma pauli_flag_error: "pauli_flag p js = Inl e \<Longrightarrow> e = IndexError"
proof (induction js)
  case Nil
  then show ?case by simp
next
  case (Cons j js)
  then show ?case
    by (cases "py_index p j") (auto dest: py_index_error split: if_splits)
qed

lemma BuildHamiltonian_term_pauli:
  assumes len: "int (length (pauli ! nat h)) = N" and p: "is_pauli_string (pauli ! nat h)"
    and h: "0 \<le> h" "h < int (length interactions)"
  shows "BuildHamiltonian_term N hilbert pauli interactions ham h
       = Inr (OpSum ham (pauli_term hilbert (pauli ! nat h) (interactions ! nat h)))"
proof -
  have c: "py_index interactions h = Inr (interactions ! nat h)"
    using h by (simp add: py_index_def)
  show ?thesis
  proof (cases "list_all (\<lambda>ch. ch = CHR ''I'') (pauli ! nat h)")
    case True
    then show ?thesis
      by (simp add: BuildHamiltonian_term_def pauli_flag_string[OF len] c pauli_term_def)
  next
    case False
    then have "\<exists>ch \<in> set (pauli ! nat h). ch \<noteq> CHR ''I''"
      by (simp add: list_all_iff)
    from OperatorFromString_pauli[OF p this] False show ?thesis
      by (simp add: BuildHamiltonian_term_def pauli_flag_string[OF len] c pauli_term_def)
  qed
qed

lemma example_term_X: "pauli_term 2 ''XI'' (2 + \<i>) = LocalOperator 2 [[0, 2 + \<i>], [2 + \<i>, 0]] [0]"
  by (simp add: pauli_term_def nonidentity_sites_def upt2 kron_product_def kron_def
      scale_def pauli_matrix_def pauli_X_def)

lemma example_term_I: "pauli_term 2 ''II'' (3 + \<i>) = LocalOperatorC 2 3"
  by (simp add: pauli_term_def)

lemma example_term_strings: "\<forall>p \<in> set [''XI'', ''II'']. int (length p) = 2 \<and> is_pauli_string p"
  by (simp add: is_pauli_string_def)

lemma upt3: "[0..<3] = [0, 1, 2]" by (simp add: upt_rec)

lemma example_flag: "pauli_flag ''IXZ'' (py_range 3) = Inr 1"
  by (simp add: py_range_def upt3 py_index_def)

lemma example_sites: "nonidentity_sites ''IXZ'' = [1, 2]"
  by (simp add: nonidentity_sites_def upt3)

lemma example_product:
  "kron_product (map pauli_matrix (filter (\<lambda>c. c \<noteq> CHR ''I'') ''IXZ''))
     = [[0, 0, 1, 0], [0, 0, 0, - 1], [1, 0, 0, 0], [0, - 1, 0, 0]]"
  by (simp add: kron_product_def kron_def pauli_matrix_def pauli_X_def pauli_Z_def)

lemma example_strings: "\<forall>p \<in> set [''IXZ'', ''III'']. is_pauli_string p"
  by (simp add: is_pauli_string_def)

section \<open>The dense Hamiltonian of a list of Pauli strings\<close>

text \<open>
  Claim C4, as amended. For every non-empty list of Pauli strings all of length \<open>N\<close> with
  \<open>N \<ge> 1\<close> and every list of interactions of the same length, \<^verbatim>\<open>hamiltonian\<close> returns the
  \<open>2^N\<close>-by-\<open>2^N\<close> complex matrix whose entries are those of
  \<open>sum_k interactions[k] * operatorfromstring(pauli_list[k])\<close>, where \<^verbatim>\<open>operatorfromstring\<close>
  maps \<open>X\<close>, \<open>Y\<close>, \<open>Z\<close> to the Pauli matrices and every other character to the identity and
  takes the Kronecker product over all positions in order.
\<close>

theorem hamiltonian_sum:
  assumes ne: "pauli_list \<noteq> []" and len: "\<forall>p \<in> set pauli_list. length p = N" and N: "1 \<le> N"
    and ints: "length interactions = length pauli_list"
  shows "hamiltonian pauli_list interactions
       = Inr (matrix_of (2 ^ N) (\<lambda>i j. \<Sum>k\<leftarrow>[0..<length pauli_list].
                interactions ! k * kron_product (map pauli_matrix (pauli_list ! k)) ! i ! j))
     \<and> (\<forall>p \<in> set pauli_list. operatorfromstring p = Inr (kron_product (map pauli_matrix p)))"
proof -
  let ?n = "2 ^ N :: nat"
  let ?K = "\<lambda>p. kron_product (map pauli_matrix p)"
  let ?g = "\<lambda>x i j. scale (interactions ! fst x) (?K (snd x)) ! i ! j"
  have ops: "operatorfromstring p = Inr (?K p)" if "p \<in> set pauli_list" for p
  proof -
    from that len N have "p \<noteq> []" by auto
    then show ?thesis by (rule operatorfromstring_product)
  qed
  have sq: "square_matrix ?n (?K p)" if "p \<in> set pauli_list" for p
    using square_operator[of p] len that by simp
  from ne have p0: "py_index pauli_list 0 = Inr (hd pauli_list)"
    by (cases pauli_list) (simp_all add: py_index_def)
  from ne len have l0: "length (hd pauli_list) = N" by (cases pauli_list) simp_all
  have zero: "replicate ?n (replicate ?n (0::complex)) = matrix_of ?n (\<lambda>i j. 0)"
    by (simp add: matrix_of_def map_replicate_const)
  have step: "(case x of (i, pauli) \<Rightarrow>
               (case py_index interactions (int i) of Inl e \<Rightarrow> Inl e
                | Inr c \<Rightarrow> (case operatorfromstring pauli of Inl e \<Rightarrow> Inl e
                | Inr M \<Rightarrow> iadd (matrix_of ?n F) (scale c M))))
      = Inr (matrix_of ?n (\<lambda>i j. F i j + ?g x i j))"
    if "x \<in> set (enumerate 0 pauli_list)" for x F
  proof -
    obtain k p where x: "x = (k, p)" by (cases x)
    with that have k: "k < length pauli_list" and p: "p = pauli_list ! k"
      by (auto simp: in_set_enumerate_eq)
    then have mem: "p \<in> set pauli_list" by simp
    have c: "py_index interactions (int k) = Inr (interactions ! k)"
      using k ints by (simp add: py_index_def)
    show ?thesis
      unfolding x prod.case c sum.case ops[OF mem]
      using iadd_matrix_of[OF square_scale[OF sq[OF mem]], of F "interactions ! k"]
      by simp
  qed
  have "hamiltonian pauli_list interactions
      = Inr (matrix_of ?n (\<lambda>i j. 0 + (\<Sum>x\<leftarrow>enumerate 0 pauli_list. ?g x i j)))"
    unfolding hamiltonian_def p0 sum.case Let_def l0 zero
    by (rule fold_res_matrix_sum) (rule step)
  also have "matrix_of ?n (\<lambda>i j. 0 + (\<Sum>x\<leftarrow>enumerate 0 pauli_list. ?g x i j))
      = matrix_of ?n (\<lambda>i j. \<Sum>k\<leftarrow>[0..<length pauli_list].
                interactions ! k * ?K (pauli_list ! k) ! i ! j)"
  proof (rule matrix_of_cong)
    fix i j assume ij: "i < ?n" "j < ?n"
    have "map (\<lambda>x. ?g x i j) (enumerate 0 pauli_list)
        = map (\<lambda>k. scale (interactions ! k) (?K (pauli_list ! k)) ! i ! j) [0..<length pauli_list]"
      by (rule map_enumerate)
    also have "\<dots> = map (\<lambda>k. interactions ! k * ?K (pauli_list ! k) ! i ! j) [0..<length pauli_list]"
      by (rule map_cong) (simp_all add: scale_nth[OF sq] ij)
    finally show "0 + (\<Sum>x\<leftarrow>enumerate 0 pauli_list. ?g x i j)
        = (\<Sum>k\<leftarrow>[0..<length pauli_list]. interactions ! k * ?K (pauli_list ! k) ! i ! j)"
      by simp
  qed
  finally show ?thesis using ops by simp
qed

theorem hamiltonian_sum_witness:
  "length [2, 3 :: complex] = length [''X'', ''Z''] \<and>
   hamiltonian [''X'', ''Z''] [2, 3] = Inr [[3, 2], [2, - 3]] \<and>
   operatorfromstring ''X'' = Inr [[0, 1], [1, 0]]"
  using hamiltonian_sum[of "[''X'', ''Z'']" 1 "[2, 3]"]
  by (simp add: matrix_of_def kron_product_def kron_def pauli_matrix_def pauli_X_def pauli_Z_def upt2)

text \<open>
  Claim C4 as stated, without the bound on \<open>N\<close>, fails for strings of length 0: the fold
  over the empty operator list raises TypeError and no matrix is returned.
\<close>

theorem hamiltonian_empty_strings:
  "hamiltonian [''''] [1] = Inl TypeError"
  by (simp add: hamiltonian_def py_index_def operatorfromstring_def reduce_def py_range_def)


section \<open>Lemmas on the eigen-decomposition\<close>

lemma sorted_first_le:
  fixes w :: "real list"
  assumes "sorted w" and "r \<in> set w"
  shows "w ! 0 \<le> r"
proof (cases w)
  case Nil
  with assms show ?thesis by simp
next
  case (Cons a as)
  with assms show ?thesis by auto
qed

lemma first_column:
  assumes "square_matrix n v" and "1 \<le> n"
  shows "column v 0 = Inr (map (\<lambda>row. row ! 0) v)"
proof -
  have "column v 0 = Inr (map (\<lambda>row. row ! nat 0) v)"
    using assms by (intro column_rows[where n = "int n"]) (simp_all add: square_matrix_def list_all_iff)
  then show ?thesis by simp
qed

lemma example_spectrum:
  assumes "eigenpair 2 example_hermitian \<mu> x"
  shows "\<mu> = - 1 \<or> \<mu> = 4"
proof -
  from assms obtain a b where x: "x = [a, b]"
    by (cases x; cases "tl x") (auto simp: eigenpair_def)
  from assms have nz: "a \<noteq> 0 \<or> b \<noteq> 0"
    by (auto simp: eigenpair_def x numeral_2_eq_2)
  from assms have e1: "11 / 5 * a + 12 * \<i> / 5 * b = \<mu> * a"
    and e2: "- 12 * \<i> / 5 * a + 4 / 5 * b = \<mu> * b"
    by (simp_all add: eigenpair_def x mat_vec_def example_hermitian_def)
  have f1: "12 * \<i> * b = (5 * \<mu> - 11) * a"
    using e1 by (simp add: field_simps)
  have f2: "- 12 * \<i> * a = (5 * \<mu> - 4) * b"
    using e2 by (simp add: field_simps)
  have "25 * ((\<mu> + 1) * (\<mu> - 4)) * a = (5 * \<mu> - 4) * ((5 * \<mu> - 11) * a) - 144 * a"
    by (simp add: algebra_simps)
  also have "\<dots> = (5 * \<mu> - 4) * (12 * \<i> * b) - 144 * a"
    by (simp only: f1)
  also have "\<dots> = 12 * \<i> * ((5 * \<mu> - 4) * b) - 144 * a"
    by simp
  also have "\<dots> = 12 * \<i> * (- 12 * \<i> * a) - 144 * a"
    by (simp only: f2)
  also have "\<dots> = 0"
    by simp
  finally have za: "(\<mu> + 1) * (\<mu> - 4) * a = 0"
    by simp
  have "25 * ((\<mu> + 1) * (\<mu> - 4)) * b = (5 * \<mu> - 11) * ((5 * \<mu> - 4) * b) - 144 * b"
    by (simp add: algebra_simps)
  also have "\<dots> = (5 * \<mu> - 11) * (- 12 * \<i> * a) - 144 * b"
    by (simp only: f2)
  also have "\<dots> = - 12 * \<i> * ((5 * \<mu> - 11) * a) - 144 * b"
    by simp
  also have "\<dots> = - 12 * \<i> * (12 * \<i> * b) - 144 * b"
    by (simp only: f1)
  also have "\<dots> = 0"
    by simp
  finally have zb: "(\<mu> + 1) * (\<mu> - 4) * b = 0"
    by simp
  from za zb nz have "\<mu> + 1 = 0 \<or> \<mu> - 4 = 0"
    by auto
  then show ?thesis
  proof
    assume "\<mu> + 1 = 0"
    then have "\<mu> = - 1" by (simp only: eq_neg_iff_add_eq_0)
    then show ?thesis ..
  next
    assume "\<mu> - 4 = 0"
    then show ?thesis by simp
  qed
qed

lemma example_hermitian_ok: "hermitian 2 example_hermitian"
  by (simp add: hermitian_def square_matrix_def example_hermitian_def upt2)

lemma example_eigenvectors:
  "eigenpair 2 example_hermitian (- 1) [3 / 5, 4 * \<i> / 5]"
  "eigenpair 2 example_hermitian 4 [4 * \<i> / 5, 3 / 5]"
  "unit_vector [3 / 5, 4 * \<i> / 5]"
  "unit_vector [4 * \<i> / 5, 3 / 5]"
  by (simp_all add: eigenpair_def mat_vec_def example_hermitian_def unit_vector_def numeral_2_eq_2
      power2_eq_square)

lemma example_contract: "eigh_contract example_eigh 2 example_hermitian"
proof -
  have cols: "eigenpair 2 example_hermitian (complex_of_real ([- 1, 4] ! i))
                (map (\<lambda>row. row ! i) [[3 / 5, 4 * \<i> / 5], [4 * \<i> / 5, 3 / 5]]) \<and>
              unit_vector (map (\<lambda>row. row ! i) [[3 / 5, 4 * \<i> / 5], [4 * \<i> / 5, 3 / 5]])"
    if "i < 2" for i
  proof -
    from that have "i = 0 \<or> i = 1" by auto
    then show ?thesis using example_eigenvectors by auto
  qed
  have all: "\<mu> \<in> complex_of_real ` set [- 1, 4]" if "eigenpair 2 example_hermitian \<mu> x" for \<mu> x
    using example_spectrum[OF that] by auto
  show ?thesis
    unfolding eigh_contract_def example_eigh_def
    using cols all by (simp add: square_matrix_def) blast
qed

section \<open>The ground state\<close>

text \<open>
  Claim C7, as amended. For every Hermitian matrix \<open>H\<close> of at least one row, on which
  \<^verbatim>\<open>np.linalg.eigh\<close> keeps what its documentation promises (\<^const>\<open>eigh_contract\<close>),
  \<^verbatim>\<open>eigensolve\<close> returns the first entry of the array of eigenvalues and the first column
  of the matrix of eigenvectors; that entry is an eigenvalue of \<open>H\<close>, no eigenvalue of \<open>H\<close> is
  smaller, and that column is a unit eigenvector for it.
\<close>

theorem eigensolve_ground_state:
  assumes herm: "hermitian n H" and n: "1 \<le> n" and contract: "eigh_contract eigh n H"
  shows "\<exists>w V. eigh H = Inr (w, V) \<and>
           eigensolve eigh H = Inr (w ! 0, map (\<lambda>row. row ! 0) V) \<and>
           eigenpair n H (complex_of_real (w ! 0)) (map (\<lambda>row. row ! 0) V) \<and>
           unit_vector (map (\<lambda>row. row ! 0) V) \<and>
           (\<forall>\<mu> x. eigenpair n H \<mu> x \<longrightarrow> (\<exists>r. \<mu> = complex_of_real r \<and> w ! 0 \<le> r))"
proof -
  from contract obtain w V where e: "eigh H = Inr (w, V)"
    by (auto simp: eigh_contract_def split: sum.splits)
  with contract have len: "length w = n" and sq: "square_matrix n V" and asc: "sorted w"
    and all: "\<And>\<mu> x. eigenpair n H \<mu> x \<Longrightarrow> \<mu> \<in> complex_of_real ` set w"
    and cols: "\<And>i. i < n \<Longrightarrow> eigenpair n H (complex_of_real (w ! i)) (map (\<lambda>row. row ! i) V)
                 \<and> unit_vector (map (\<lambda>row. row ! i) V)"
    by (auto simp: eigh_contract_def)
  have first: "py_index w 0 = Inr (w ! 0)"
    using len n by (simp add: py_index_def)
  have ret: "eigensolve eigh H = Inr (w ! 0, map (\<lambda>row. row ! 0) V)"
    by (simp add: eigensolve_def e first first_column[OF sq n])
  have least: "\<exists>r. \<mu> = complex_of_real r \<and> w ! 0 \<le> r" if "eigenpair n H \<mu> x" for \<mu> x
  proof -
    from all[OF that] obtain r where "r \<in> set w" and "\<mu> = complex_of_real r" by auto
    with asc show ?thesis using sorted_first_le by blast
  qed
  from n have "0 < n" by simp
  from cols[OF this] e ret least show ?thesis by blast
qed

theorem eigensolve_ground_state_witness:
  "hermitian 2 example_hermitian \<and> eigh_contract example_eigh 2 example_hermitian \<and>
   eigensolve example_eigh example_hermitian = Inr (- 1, [3 / 5, 4 * \<i> / 5]) \<and>
   eigenpair 2 example_hermitian (- 1) [3 / 5, 4 * \<i> / 5] \<and>
   unit_vector [3 / 5, 4 * \<i> / 5]"
  using eigensolve_ground_state[OF example_hermitian_ok _ example_contract]
    example_hermitian_ok example_contract
  by (simp add: example_eigh_def)

text \<open>
  Claim C7 as stated includes the matrix without rows. It is Hermitian and has no eigenvalue:
  \<^verbatim>\<open>np.linalg.eigh\<close> returns empty arrays, and \<^verbatim>\<open>eigenvalues[0]\<close> raises IndexError.
\<close>

theorem eigensolve_empty_matrix:
  "hermitian 0 [] \<and> eigh_contract example_eigh 0 [] \<and> eigensolve example_eigh [] = Inl IndexError"
  by (simp add: hermitian_def square_matrix_def eigh_contract_def example_eigh_def example_hermitian_def
      eigenpair_def eigensolve_def py_index_def)

section \<open>The NetKet Hamiltonian of a list of Pauli strings\<close>

text \<open>
  Claim C3. For every list of Pauli strings of \<open>N\<close> characters and every list of
  interaction coefficients of the same length, \<^verbatim>\<open>BuildHamiltonian\<close> adds for each string
  consisting entirely of \<open>I\<close> a constant term equal to the real part of its coefficient, and
  for every other string the coefficient times the Kronecker product of the Pauli matrices
  at the non-\<open>I\<close> positions, acting on exactly those sites; the result is the sum of these
  terms (\<^const>\<open>pauli_term\<close>) as a local operator.
\<close>

theorem BuildHamiltonian_terms:
  assumes strings: "\<forall>p \<in> set pauli. int (length p) = N \<and> is_pauli_string p"
    and ints: "length interactions = length pauli"
  shows "BuildHamiltonian N hilbert pauli interactions
       = Inr (foldl OpSum (LocalOperatorC hilbert 0) (map2 (pauli_term hilbert) pauli interactions))"
proof -
  have "BuildHamiltonian N hilbert pauli interactions
      = Inr (foldl OpSum (LocalOperatorC hilbert 0)
          (map (\<lambda>h. pauli_term hilbert (pauli ! nat h) (interactions ! nat h)) (py_range (int (length pauli)))))"
    unfolding BuildHamiltonian_def
  proof (rule fold_res_opsum)
    fix ham h assume "h \<in> set (py_range (int (length pauli)))"
    then have h: "0 \<le> h" "h < int (length pauli)" by (auto simp: set_py_range)
    then have "pauli ! nat h \<in> set pauli" by simp
    with strings have "int (length (pauli ! nat h)) = N" "is_pauli_string (pauli ! nat h)" by auto
    then show "BuildHamiltonian_term N hilbert pauli interactions ham h
       = Inr (OpSum ham (pauli_term hilbert (pauli ! nat h) (interactions ! nat h)))"
      using h ints by (intro BuildHamiltonian_term_pauli) simp_all
  qed
  moreover have "map (\<lambda>h. pauli_term hilbert (pauli ! nat h) (interactions ! nat h)) (py_range (int (length pauli)))
      = map2 (pauli_term hilbert) pauli interactions"
    using ints by (intro nth_equalityI) (simp_all add: py_range_def)
  ultimately show ?thesis by simp
qed

theorem BuildHamiltonian_terms_witness:
  "BuildHamiltonian 2 2 [''XI'', ''II''] [2 + \<i>, 3 + \<i>]
     = Inr (OpSum (OpSum (LocalOperatorC 2 0) (LocalOperator 2 [[0, 2 + \<i>], [2 + \<i>, 0]] [0]))
                  (LocalOperatorC 2 3))"
  using BuildHamiltonian_terms[OF example_term_strings, of "[2 + \<i>, 3 + \<i>]" 2]
  by (simp add: example_term_X example_term_I)

section \<open>The empty fold is unreachable\<close>

text \<open>
  Claim C10. On Pauli strings, \<^verbatim>\<open>BuildHamiltonian\<close> calls \<^verbatim>\<open>OperatorFromString\<close> (the branch
  where the flag is not 0) only on strings containing at least one of \<open>X\<close>, \<open>Y\<close>, \<open>Z\<close>;
  there the operator list is non-empty, so the fold returns a matrix with
  \<open>2^|Sites|\<close> rows and columns together with the list of the non-identity positions, and
  \<^verbatim>\<open>BuildHamiltonian\<close> never raises the TypeError of the empty fold.
\<close>

theorem OperatorFromString_defined:
  assumes strings: "\<forall>p \<in> set pauli. is_pauli_string p"
  shows "BuildHamiltonian N hilbert pauli interactions \<noteq> Inl TypeError \<and>
         (\<forall>p \<in> set pauli. \<forall>flag. pauli_flag p (py_range N) = Inr flag \<and> flag \<noteq> 0 \<longrightarrow>
            (\<exists>c \<in> set p. c \<in> {CHR ''X'', CHR ''Y'', CHR ''Z''}) \<and>
            nonidentity_sites p \<noteq> [] \<and>
            OperatorFromString p
              = Inr (nonidentity_sites p, kron_product (map pauli_matrix (filter (\<lambda>c. c \<noteq> CHR ''I'') p))) \<and>
            square_matrix (2 ^ length (nonidentity_sites p))
              (kron_product (map pauli_matrix (filter (\<lambda>c. c \<noteq> CHR ''I'') p))))"
proof -
  have called: "(\<exists>c \<in> set p. c \<in> {CHR ''X'', CHR ''Y'', CHR ''Z''}) \<and>
            nonidentity_sites p \<noteq> [] \<and>
            OperatorFromString p
              = Inr (nonidentity_sites p, kron_product (map pauli_matrix (filter (\<lambda>c. c \<noteq> CHR ''I'') p))) \<and>
            square_matrix (2 ^ length (nonidentity_sites p))
              (kron_product (map pauli_matrix (filter (\<lambda>c. c \<noteq> CHR ''I'') p)))"
    if p: "p \<in> set pauli" and flag: "pauli_flag p (py_range N) = Inr flag" "flag \<noteq> 0" for p flag
  proof -
    from p strings have ps: "is_pauli_string p" by simp
    from pauli_flag_found[OF flag] have x: "\<exists>c \<in> set p. c \<noteq> CHR ''I''" .
    then have 1: "\<exists>c \<in> set p. c \<in> {CHR ''X'', CHR ''Y'', CHR ''Z''}"
      using ps by (auto simp: is_pauli_string_def)
    from x have "filter (\<lambda>c. c \<noteq> CHR ''I'') p \<noteq> []" by (simp add: filter_empty_conv)
    then have 2: "nonidentity_sites p \<noteq> []"
      using length_nonidentity_sites[of p] by auto
    have 3: "square_matrix (2 ^ length (nonidentity_sites p))
              (kron_product (map pauli_matrix (filter (\<lambda>c. c \<noteq> CHR ''I'') p)))"
      using square_operator[of "filter (\<lambda>c. c \<noteq> CHR ''I'') p"]
      by (simp add: length_nonidentity_sites)
    from 1 2 3 OperatorFromString_pauli[OF ps x] show ?thesis by simp
  qed
  have "BuildHamiltonian N hilbert pauli interactions \<noteq> Inl TypeError"
  proof
    assume "BuildHamiltonian N hilbert pauli interactions = Inl TypeError"
    then obtain h ham where h: "h \<in> set (py_range (int (length pauli)))"
      and t: "BuildHamiltonian_term N hilbert pauli interactions ham h = Inl TypeError"
      unfolding BuildHamiltonian_def by (blast dest: fold_res_error)
    from h have mem: "pauli ! nat h \<in> set pauli" by (auto simp: set_py_range)
    show False
    proof (cases "pauli_flag (pauli ! nat h) (py_range N)")
      case (Inl e)
      with t pauli_flag_error[OF Inl] show False
        by (simp add: BuildHamiltonian_term_def)
    next
      case (Inr flag)
      show False
      proof (cases "flag = 0")
        case True
        with t Inr show False
          by (auto simp: BuildHamiltonian_term_def dest: py_index_error split: sum.splits)
      next
        case False
        from called[OF mem Inr False] t Inr False show False
          by (auto simp: BuildHamiltonian_term_def dest: py_index_error split: sum.splits)
      qed
    qed
  qed
  with called show ?thesis by blast
qed

theorem OperatorFromString_defined_witness:
  "is_pauli_string ''IXZ'' \<and> is_pauli_string ''III'' \<and>
   pauli_flag ''IXZ'' (py_range 3) = Inr 1 \<and>
   OperatorFromString ''IXZ'' = Inr ([1, 2], [[0, 0, 1, 0], [0, 0, 0, - 1], [1, 0, 0, 0], [0, - 1, 0, 0]]) \<and>
   BuildHamiltonian 3 3 [''IXZ'', ''III''] [2, 3] \<noteq> Inl TypeError"
proof -
  from OperatorFromString_defined[OF example_strings, of 3 3 "[2, 3]"]
  have a: "BuildHamiltonian 3 3 [''IXZ'', ''III''] [2, 3] \<noteq> Inl TypeError"
    and b: "\<forall>p \<in> set [''IXZ'', ''III'']. \<forall>flag. pauli_flag p (py_range 3) = Inr flag \<and> flag \<noteq> 0 \<longrightarrow>
            (\<exists>c \<in> set p. c \<in> {CHR ''X'', CHR ''Y'', CHR ''Z''}) \<and>
            nonidentity_sites p \<noteq> [] \<and>
            OperatorFromString p
              = Inr (nonidentity_sites p, kron_product (map pauli_matrix (filter (\<lambda>c. c \<noteq> CHR ''I'') p))) \<and>
            square_matrix (2 ^ length (nonidentity_sites p))
              (kron_product (map pauli_matrix (filter (\<lambda>c. c \<noteq> CHR ''I'') p)))"
    by blast+
  have mem: "''IXZ'' \<in> set [''IXZ'', ''III'']" by simp
  have "(\<exists>c \<in> set ''IXZ''. c \<in> {CHR ''X'', CHR ''Y'', CHR ''Z''}) \<and>
        nonidentity_sites ''IXZ'' \<noteq> [] \<and>
        OperatorFromString ''IXZ''
          = Inr (nonidentity_sites ''IXZ'', kron_product (map pauli_matrix (filter (\<lambda>c. c \<noteq> CHR ''I'') ''IXZ''))) \<and>
        square_matrix (2 ^ length (nonidentity_sites ''IXZ''))
          (kron_product (map pauli_matrix (filter (\<lambda>c. c \<noteq> CHR ''I'') ''IXZ'')))"
    by (rule b[rule_format, OF mem, of 1]) (simp add: example_flag)
  then have "OperatorFromString ''IXZ''
      = Inr ([1, 2], [[0, 0, 1, 0], [0, 0, 0, - 1], [1, 0, 0, 0], [0, - 1, 0, 0]])"
    by (simp only: example_sites example_product)
  with a example_strings example_flag show ?thesis by simp
qed

section \<open>Lemmas on loading the measurement data\<close>

lemma fold_res_append:
  assumes "\<And>acc x. x \<in> set xs \<Longrightarrow> f acc x = Inr (acc @ [g x])"
  shows "fold_res f xs acc = Inr (acc @ map g xs)"
  using assms by (induction xs arbitrary: acc) simp_all

lemma take_as_map: "n \<le> length xs \<Longrightarrow> map (\<lambda>j. xs ! j) [0..<n] = take n xs"
  by (rule nth_equalityI) simp_all

lemma read_basis_take:
  assumes "int (length b) = N + 1"
  shows "foldl (\<lambda>basis j. basis @ [b ! nat j]) [] (py_range N) = take (nat N) b"
proof -
  have "foldl (\<lambda>basis j. basis @ [b ! nat j]) [] (py_range N) = map (\<lambda>j. b ! j) [0..<nat N]"
    by (simp add: foldl_append_one py_range_def comp_def)
  also have "\<dots> = take (nat N) b"
    using assms by (intro take_as_map) linarith
  finally show ?thesis .
qed

lemma read_bases_lines:
  assumes "\<forall>b \<in> set lines. int (length b) = N + 1"
  shows "read_bases N lines = Inr (map (take (nat N)) lines)"
proof -
  have "read_bases N lines = Inr ([] @ map (take (nat N)) lines)"
    unfolding read_bases_def
    by (rule fold_res_append) (use assms in \<open>simp add: read_basis_take\<close>)
  then show ?thesis by simp
qed

lemma insort_key_map:
  "insort_key f (g x) (map g ys) = map g (insort_key (\<lambda>y. f (g y)) x ys)"
  by (induction ys) simp_all

lemma sort_key_map:
  "sort_key f (map g xs) = map g (sort_key (\<lambda>y. f (g y)) xs)"
  by (induction xs) (simp_all add: insort_key_map)

lemma map_insort_key: "map f (insort_key f x ys) = insort (f x) (map f ys)"
  by (induction ys) simp_all

lemma map_sort_key: "map f (sort_key f xs) = sort (map f xs)"
  by (induction xs) (simp_all add: map_insort_key)

lemma index_list_perm:
  "sort_key (\<lambda>k. bases ! nat k) (py_range (int (length bases)))
     = map int (sort_key (\<lambda>k. bases ! k) [0..<length bases])"
  by (simp add: py_range_def sort_key_map)

lemma perm_properties:
  fixes bases :: "string list"
  defines "perm \<equiv> sort_key (\<lambda>k. bases ! k) [0..<length bases]"
  shows "distinct perm" and "set perm = {0..<length bases}" and "length perm = length bases"
    and "map (\<lambda>k. bases ! k) perm = sort bases"
proof -
  show "distinct perm" by (simp add: perm_def distinct_sort)
  show "set perm = {0..<length bases}" by (simp add: perm_def)
  show "length perm = length bases" by (simp add: perm_def)
  have "map (\<lambda>k. bases ! k) perm = sort (map (\<lambda>k. bases ! k) [0..<length bases])"
    unfolding perm_def by (rule map_sort_key)
  then show "map (\<lambda>k. bases ! k) perm = sort bases" by (simp only: map_nth)
qed

lemma training_samples_loop:
  fixes tsamples :: "real list list"
  assumes len: "length perm = n" and rng: "set perm \<subseteq> {0..<length tsamples}"
  shows "fold_res (\<lambda>training_samples i.
                    (case py_index (map int perm) i of Inl e \<Rightarrow> Inl e
                     | Inr k \<Rightarrow> (case py_index tsamples k of Inl e \<Rightarrow> Inl e
                     | Inr row \<Rightarrow> Inr (training_samples @ [row]))))
                  (py_range (int n)) []
       = Inr (map (\<lambda>k. tsamples ! k) perm)"
proof -
  have "fold_res (\<lambda>training_samples i.
                    (case py_index (map int perm) i of Inl e \<Rightarrow> Inl e
                     | Inr k \<Rightarrow> (case py_index tsamples k of Inl e \<Rightarrow> Inl e
                     | Inr row \<Rightarrow> Inr (training_samples @ [row]))))
                  (py_range (int n)) []
      = Inr ([] @ map (\<lambda>i. tsamples ! (perm ! nat i)) (py_range (int n)))"
  proof (rule fold_res_append)
    fix acc :: "real list list" and i assume "i \<in> set (py_range (int n))"
    then have i: "0 \<le> i" "nat i < length perm" using len by (auto simp: set_py_range)
    then have "perm ! nat i \<in> set perm" by simp
    with rng have k: "perm ! nat i < length tsamples" by auto
    have 1: "py_index (map int perm) i = Inr (int (perm ! nat i))"
      using i by (simp add: py_index_def)
    have 2: "py_index tsamples (int (perm ! nat i)) = Inr (tsamples ! (perm ! nat i))"
      using k by (simp add: py_index_def)
    show "(case py_index (map int perm) i of Inl e \<Rightarrow> Inl e
                     | Inr k \<Rightarrow> (case py_index tsamples k of Inl e \<Rightarrow> Inl e
                     | Inr row \<Rightarrow> Inr (acc @ [row])))
        = Inr (acc @ [tsamples ! (perm ! nat i)])"
      by (simp only: 1 2 sum.case)
  qed
  moreover have "map (\<lambda>i. tsamples ! (perm ! nat i)) (py_range (int n))
      = map (\<lambda>k. tsamples ! k) (map (\<lambda>i. perm ! i) [0..<length perm])"
    by (simp add: py_range_def comp_def len)
  ultimately show ?thesis by (simp only: map_nth append_Nil)
qed


lemma foldl_two_ifs:
  assumes "\<And>j. j \<in> set js \<Longrightarrow> \<not> (P j \<and> Q j)"
  shows "foldl (\<lambda>op j. let op = (if P j then OpProd op (A j) else op)
                        in (if Q j then OpProd op (B j) else op)) op0 js
       = foldl OpProd op0 (map (\<lambda>j. if P j then A j else B j) (filter (\<lambda>j. P j \<or> Q j) js))"
  using assms by (induction js arbitrary: op0) (auto simp: Let_def)

lemma rotation_localop:
  assumes "length b = nat N"
  shows "foldl (\<lambda>localop j.
                   let localop = (if b ! nat j = CHR ''X''
                                  then OpProd localop (LocalOperator hilbert rotationX [j])
                                  else localop)
                   in (if b ! nat j = CHR ''Y''
                       then OpProd localop (LocalOperator hilbert rotationY [j])
                       else localop)) (LocalOperatorC hilbert 1) (py_range N)
       = rotation_of hilbert b"
proof -
  have "foldl (\<lambda>localop j.
                   let localop = (if b ! nat j = CHR ''X''
                                  then OpProd localop (LocalOperator hilbert rotationX [j])
                                  else localop)
                   in (if b ! nat j = CHR ''Y''
                       then OpProd localop (LocalOperator hilbert rotationY [j])
                       else localop)) (LocalOperatorC hilbert 1) (py_range N)
      = foldl OpProd (LocalOperatorC hilbert 1)
          (map (\<lambda>j. if b ! nat j = CHR ''X'' then LocalOperator hilbert rotationX [j]
                     else LocalOperator hilbert rotationY [j])
             (filter (\<lambda>j. b ! nat j = CHR ''X'' \<or> b ! nat j = CHR ''Y'') (py_range N)))"
    by (rule foldl_two_ifs) simp
  also have "map (\<lambda>j. if b ! nat j = CHR ''X'' then LocalOperator hilbert rotationX [j]
                     else LocalOperator hilbert rotationY [j])
             (filter (\<lambda>j. b ! nat j = CHR ''X'' \<or> b ! nat j = CHR ''Y'') (py_range N))
      = map (\<lambda>j. LocalOperator hilbert (if b ! j = CHR ''X'' then rotationX else rotationY) [int j])
            (filter (\<lambda>j. b ! j = CHR ''X'' \<or> b ! j = CHR ''Y'') [0..<length b])"
    using assms by (simp add: py_range_def filter_map comp_def if_distrib[of "\<lambda>m. LocalOperator hilbert m _"] cong: if_cong)
  finally show ?thesis by (simp only: rotation_of_def)
qed

lemma rotation_step_eq:
  assumes "length b = nat N"
  shows "rotation_step N hilbert (tmp, b_index, rotations, training_bases) b
       = (if b \<noteq> tmp
          then (b, b_index + 1, rotations @ [rotation_of hilbert b], training_bases @ [b_index + 1])
          else (tmp, b_index, rotations, training_bases @ [b_index]))"
  by (simp only: rotation_step_def prod.case Let_def rotation_localop[OF assms, unfolded Let_def])

lemma remdups_adj_snoc:
  "remdups_adj (bs @ [b]) = (if bs \<noteq> [] \<and> last bs = b then remdups_adj bs else remdups_adj bs @ [b])"
proof (cases bs rule: rev_cases)
  case Nil
  then show ?thesis by simp
next
  case (snoc bs' l)
  then show ?thesis by (simp add: remdups_adj_append_two)
qed

lemma rotation_loop:
  assumes "\<forall>b \<in> set bs. length b = nat N \<and> b \<noteq> []"
  shows "foldl (rotation_step N hilbert) ([], - 1, [], []) bs
       = (last ([] # bs), int (length (remdups_adj bs)) - 1,
          map (rotation_of hilbert) (remdups_adj bs),
          map (\<lambda>i. int (length (remdups_adj (take (Suc i) bs))) - 1) [0..<length bs])"
  using assms
proof (induction bs rule: rev_induct)
  case Nil
  show ?case by simp
next
  case (snoc b bs)
  then have IH: "foldl (rotation_step N hilbert) ([], - 1, [], []) bs
       = (last ([] # bs), int (length (remdups_adj bs)) - 1,
          map (rotation_of hilbert) (remdups_adj bs),
          map (\<lambda>i. int (length (remdups_adj (take (Suc i) bs))) - 1) [0..<length bs])"
    and b: "length b = nat N" "b \<noteq> []"
    by simp_all
  have tmp: "b \<noteq> last ([] # bs) \<longleftrightarrow> \<not> (bs \<noteq> [] \<and> last bs = b)"
    using b by auto
  have idx: "map (\<lambda>i. int (length (remdups_adj (take (Suc i) (bs @ [b])))) - 1) [0..<length bs]
      = map (\<lambda>i. int (length (remdups_adj (take (Suc i) bs))) - 1) [0..<length bs]"
    by (rule map_cong) simp_all
  show ?case
  proof (cases "bs \<noteq> [] \<and> last bs = b")
    case True
    then show ?thesis
      by (simp add: IH rotation_step_eq[OF b(1)] remdups_adj_snoc idx)
  next
    case False
    with tmp have "b \<noteq> last ([] # bs)" by blast
    with False show ?thesis
      by (simp add: IH rotation_step_eq[OF b(1)] remdups_adj_snoc idx)
  qed
qed


lemma distinct_remdups_adj_sorted:
  fixes xs :: "'a::linorder list"
  shows "sorted xs \<Longrightarrow> distinct (remdups_adj xs)"
  by (induction xs rule: remdups_adj.induct) auto

lemma remdups_adj_sorted_list:
  fixes bs :: "'a::linorder list"
  assumes "sorted bs"
  shows "remdups_adj bs = sorted_list_of_set (set bs)"
proof (rule sorted_distinct_set_unique)
  show "sorted (remdups_adj bs)" using assms by simp
  show "distinct (remdups_adj bs)" using assms by (rule distinct_remdups_adj_sorted)
  show "sorted (sorted_list_of_set (set bs))" by simp
  show "distinct (sorted_list_of_set (set bs))" by simp
  show "set (remdups_adj bs) = set (sorted_list_of_set (set bs))" by simp
qed

lemma training_index:
  assumes i: "i < length bs"
  shows "remdups_adj (take (Suc i) bs) \<noteq> []"
    and "length (remdups_adj (take (Suc i) bs)) \<le> length (remdups_adj bs)"
    and "remdups_adj bs ! (length (remdups_adj (take (Suc i) bs)) - 1) = bs ! i"
proof -
  let ?R = "remdups_adj (take (Suc i) bs)"
  have tk: "take (Suc i) bs = take i bs @ [bs ! i]"
    using i by (rule take_Suc_conv_app_nth)
  have "bs = take i bs @ bs ! i # drop (Suc i) bs"
    using i by (rule id_take_nth_drop)
  then have "remdups_adj bs = remdups_adj (take i bs @ bs ! i # drop (Suc i) bs)" by simp
  also have "\<dots> = ?R @ tl (remdups_adj (bs ! i # drop (Suc i) bs))"
    unfolding tk by (rule remdups_adj_append)
  finally have split: "remdups_adj bs = ?R @ tl (remdups_adj (bs ! i # drop (Suc i) bs))" .
  show ne: "?R \<noteq> []" by (simp add: tk)
  show "length ?R \<le> length (remdups_adj bs)"
    by (subst split) (simp del: length_tl)
  have "remdups_adj bs ! (length ?R - 1) = ?R ! (length ?R - 1)"
    using ne by (subst split) (simp add: nth_append)
  also have "\<dots> = last ?R" by (rule last_conv_nth[symmetric]) (rule ne)
  also have "\<dots> = bs ! i" by (simp add: tk)
  finally show "remdups_adj bs ! (length ?R - 1) = bs ! i" .
qed

lemma example_sort: "sort [''ZZ'', ''XZ'', ''ZZ''] = [''XZ'', ''ZZ'', ''ZZ'']"
  by code_simp

lemma example_index_list:
  "sort_key (\<lambda>k. [''ZZ'', ''XZ'', ''ZZ''] ! nat k) [0, 1, 2 :: int] = [1, 0, 2]"
  by code_simp

lemma example_bases: "read_bases 2 example_lines = Inr [''ZZ'', ''XZ'', ''ZZ'']"
  by (simp add: read_bases_def example_lines_def py_range_def upt2)

lemma example_LoadData:
  "LoadData 2 2 (Array2 2 [[0, 1], [1, 1], [1, 0]]) example_lines
     = Inr ([OpProd (LocalOperatorC 2 1) (LocalOperator 2 rotationX [0]), LocalOperatorC 2 1],
            [[1, 1], [0, 1], [1, 0]], [0, 1, 1])"
  by (simp add: LoadData_def example_bases py_range_def upt2 upt3 example_index_list example_sort
      rotation_step_def py_index_def)

section \<open>Samples stay paired with their bases\<close>

text \<open>
  Claim C6, as amended. For \<open>N \<ge> 1\<close>, every two-dimensional array of samples whose rows
  have \<open>N\<close> columns and every bases file with as many lines as there are rows, each line of
  length \<open>N + 1\<close>,
  \<^verbatim>\<open>LoadData\<close> returns \<open>(rotations, training_samples, training_bases)\<close> such that
  (\<^const>\<open>loaded\<close>): the basis strings are sorted lexicographically and the sample rows are
  permuted by the same permutation; \<open>rotations\<close> holds exactly one operator per distinct
  basis string, in sorted order, each the product of the single-qubit \<open>rotationX\<close> and
  \<open>rotationY\<close> operators at the \<open>X\<close> and \<open>Y\<close> positions of that string; and
  \<open>training_bases[i]\<close> is the index in \<open>rotations\<close> of the rotation of the \<open>i\<close>-th sorted
  basis string.
\<close>

theorem LoadData_loaded:
  assumes N: "1 \<le> N"
    and rows: "\<forall>row \<in> set tsamples. int (length row) = N"
    and lines: "\<forall>b \<in> set lines. int (length b) = N + 1"
    and count: "length tsamples = length lines"
  shows "\<exists>result. LoadData N hilbert (Array2 (nat N) tsamples) lines = Inr result
           \<and> loaded N hilbert tsamples lines result"
proof -
  define bases where "bases = map (take (nat N)) lines"
  define perm where "perm = sort_key (\<lambda>k. bases ! k) [0..<length bases]"
  define sb where "sb = sort bases"
  define tb where "tb = map (\<lambda>i. int (length (remdups_adj (take (Suc i) sb))) - 1) [0..<length sb]"
  have n: "length bases = length lines" "length sb = length lines"
    by (simp_all add: bases_def sb_def)
  note pp = perm_properties[of bases, folded perm_def]
  have rb: "read_bases N lines = Inr bases"
    unfolding bases_def using lines by (rule read_bases_lines)
  have ts: "fold_res (\<lambda>training_samples i.
                    (case py_index (map int perm) i of Inl e \<Rightarrow> Inl e
                     | Inr k \<Rightarrow> (case py_index tsamples k of Inl e \<Rightarrow> Inl e
                     | Inr row \<Rightarrow> Inr (training_samples @ [row]))))
                  (py_range (int (length tsamples))) []
       = Inr (map (\<lambda>k. tsamples ! k) perm)"
    by (rule training_samples_loop) (simp_all add: pp n count)
  have el: "\<forall>b \<in> set sb. length b = nat N \<and> b \<noteq> []"
  proof
    fix b assume "b \<in> set sb"
    then obtain l where l: "l \<in> set lines" and b: "b = take (nat N) l"
      by (auto simp: sb_def bases_def)
    from l lines have "int (length l) = N + 1" by simp
    with N b show "length b = nat N \<and> b \<noteq> []" by auto
  qed
  have loop: "foldl (rotation_step N hilbert) ('''', - 1, [], []) sb
       = (last ([] # sb), int (length (remdups_adj sb)) - 1,
          map (rotation_of hilbert) (remdups_adj sb), tb)"
    unfolding tb_def using el by (rule rotation_loop)
  have columns: "int (nat N) = N"
    using N by simp
  have res: "LoadData N hilbert (Array2 (nat N) tsamples) lines
      = Inr (map (rotation_of hilbert) (remdups_adj sb), map (\<lambda>k. tsamples ! k) perm, tb)"
    unfolding LoadData_def
    by (simp only: ndarray.case columns simp_thms if_False rb sum.case Let_def index_list_perm
        perm_def[symmetric] sb_def[symmetric] ts loop prod.case)
  have dl: "remdups_adj sb = sorted_list_of_set (set bases)"
    using remdups_adj_sorted_list[of sb] by (simp add: sb_def)
  have tbi: "0 \<le> tb ! i \<and> nat (tb ! i) < length (sorted_list_of_set (set bases)) \<and>
      sorted_list_of_set (set bases) ! nat (tb ! i) = sort bases ! i" if "i < length lines" for i
  proof -
    from that have i: "i < length sb" by (simp add: n)
    note t = training_index[OF i]
    have v: "tb ! i = int (length (remdups_adj (take (Suc i) sb))) - 1"
      using i by (simp add: tb_def)
    have pos: "1 \<le> length (remdups_adj (take (Suc i) sb))"
      using t(1) by (simp add: Suc_le_eq)
    then have nv: "nat (tb ! i) = length (remdups_adj (take (Suc i) sb)) - 1"
      unfolding v by linarith
    have a: "length (remdups_adj (take (Suc i) sb)) - 1 < length (remdups_adj sb)"
      using pos t(2) by linarith
    have ne: "sb \<noteq> []" using i by auto
    show ?thesis
      unfolding nv using a ne pos t(3) v by (simp add: dl[symmetric] sb_def[symmetric])
  qed
  have pe: "sort_key (\<lambda>k. bases ! k) [0..<length lines] = perm"
    by (simp add: perm_def n)
  have "loaded N hilbert tsamples lines
      (map (rotation_of hilbert) (remdups_adj sb), map (\<lambda>k. tsamples ! k) perm, tb)"
    unfolding loaded_def prod.case Let_def bases_def[symmetric] pe
    using pp tbi
    by (simp add: list_all_iff n dl tb_def)
  with res show ?thesis by blast
qed

theorem LoadData_loaded_witness:
  "LoadData 2 2 (Array2 2 [[0, 1], [1, 1], [1, 0]]) example_lines
     = Inr ([OpProd (LocalOperatorC 2 1) (LocalOperator 2 rotationX [0]), LocalOperatorC 2 1],
            [[1, 1], [0, 1], [1, 0]], [0, 1, 1]) \<and>
   loaded 2 2 [[0, 1], [1, 1], [1, 0]] example_lines
     ([OpProd (LocalOperatorC 2 1) (LocalOperator 2 rotationX [0]), LocalOperatorC 2 1],
      [[1, 1], [0, 1], [1, 0]], [0, 1, 1])"
proof -
  have "\<exists>result. LoadData 2 2 (Array2 (nat 2) [[0, 1], [1, 1], [1, 0]]) example_lines = Inr result
           \<and> loaded 2 2 [[0, 1], [1, 1], [1, 0]] example_lines result"
    by (rule LoadData_loaded) (simp_all add: example_lines_def)
  then show ?thesis by (simp add: example_LoadData)
qed

text \<open>
  Claim C6 as stated lets the two files differ in their number of lines and lets the samples
  file have a single row or a single column. With two rows of samples and one line of bases
  \<^verbatim>\<open>index_list[1]\<close> raises IndexError. The array of a file of one row, or of rows of one
  column, has one axis only, and \<^verbatim>\<open>tsamples.shape[1]\<close> raises IndexError.
\<close>

theorem LoadData_unpaired:
  "LoadData 2 1 (Array2 2 [[0, 1], [1, 1]]) [[CHR ''Z'', CHR ''Z'', CHR 0x0A]] = Inl IndexError \<and>
   LoadData 2 1 (Array1 [0, 1]) [[CHR ''Z'', CHR ''Z'', CHR 0x0A]] = Inl IndexError \<and>
   LoadData 1 1 (Array1 [0, 1]) [[CHR ''Z'', CHR 0x0A], [CHR ''X'', CHR 0x0A]] = Inl IndexError"
  by (simp add: LoadData_def read_bases_def py_range_def upt2 py_index_def)

end
